theory Spec2Isabelle
  imports Main "HOL-Library.Word" "HOL-Library.Signed_Division"
begin

section \<open>Data model\<close>

text \<open>
  The Go package \<^verbatim>\<open>callback\<close> dispatches byte payloads to a list of workers, one per
  endpoint.  Structs are records, pointers that may be nil are options, panics are
  results of their own, and every reading of the clock is an argument.

  A \<^verbatim>\<open>time.Time\<close> is an instant: an integer count of nanoseconds with \<^verbatim>\<open>time.Time{}\<close> at
  0; \<^verbatim>\<open>t.After(u)\<close> is \<open>u < t\<close> and \<^verbatim>\<open>t.Before(u)\<close> is \<open>t < u\<close>.  A \<^verbatim>\<open>time.Duration\<close> is
  an \<^verbatim>\<open>int64\<close> count of nanoseconds: a 64-bit word read as two's complement, whose
  negation and product wrap around.  \<^verbatim>\<open>t.Add(d)\<close> moves the instant by the signed value
  of \<open>d\<close>; it is only applied to readings of \<^verbatim>\<open>time.Now()\<close>, none of which is within
  \<open>2^63\<close> nanoseconds of the ends of the range of \<^verbatim>\<open>time.Time\<close>, where it would saturate.
\<close>

type_synonym Time = int
type_synonym Duration = "64 word"
type_synonym bytes = "8 word list"

definition zeroTime :: Time where
  "zeroTime = 0"

definition Second :: Duration where
  "Second = 1000000000"

definition Add :: "Time \<Rightarrow> Duration \<Rightarrow> Time" where
  "Add t d = t + sint d"

subsection \<open>Options (options.go)\<close>

type_synonym DeliveryMode = string
type_synonym Transport = string
type_synonym RetryMode = string

definition RoundRobin :: DeliveryMode where
  "RoundRobin = ''round_robin''"

definition Broadcast :: DeliveryMode where
  "Broadcast = ''broadcast''"

definition REST :: Transport where
  "REST = ''REST''"

definition QUIC :: Transport where
  "QUIC = ''QUIC''"

definition Repeat :: RetryMode where
  "Repeat = ''repeat''"

definition Next :: RetryMode where
  "Next = ''next''"

record Options =
  Transport :: Transport
  DeliveryMode :: DeliveryMode
  RetryMode :: RetryMode
  EndPoints :: "string list"
  RetryLimit :: int
  RetryTimeout :: Duration
  RetryWindow :: Duration

text \<open>\<^verbatim>\<open>defaultOptions\<close>: six tests in the order of the source, each on the field it sets.\<close>

definition defaultOptions :: "Options \<Rightarrow> Options" where
  "defaultOptions opt =
    (let opt = (if Transport opt = [] then opt\<lparr>Transport := REST\<rparr> else opt);
         opt = (if DeliveryMode opt = [] then opt\<lparr>DeliveryMode := RoundRobin\<rparr> else opt);
         opt = (if RetryMode opt = [] then opt\<lparr>RetryMode := Next\<rparr> else opt);
         opt = (if RetryLimit opt = 0 then opt\<lparr>RetryLimit := 5\<rparr> else opt);
         opt = (if RetryTimeout opt = 0 then opt\<lparr>RetryTimeout := Second * 5\<rparr> else opt);
         opt = (if RetryWindow opt = 0 then opt\<lparr>RetryWindow := Second * 3\<rparr> else opt)
     in opt)"

subsection \<open>Result envelopes\<close>

record Error =
  Code :: int
  Message :: string
  Critical :: bool

record Response =
  Data :: bytes

text \<open>The two pointer fields of \<^verbatim>\<open>Data\<close> are options: \<open>None\<close> is nil.\<close>

record Data =
  Point :: string
  Success :: bool
  Response :: "Response option"
  Error :: "Error option"

text \<open>
  The argument of \<^verbatim>\<open>sendReturn\<close> is an \<^verbatim>\<open>interface{}\<close>: its dynamic type is a
  \<^verbatim>\<open>*Response\<close> (the only type with \<^verbatim>\<open>IsResponse\<close>), a \<^verbatim>\<open>*Error\<close> (the only type with
  \<^verbatim>\<open>IsError\<close>), or anything else.
\<close>

datatype iface = IResponse "Response option" | IError "Error option" | IOther

subsection \<open>Workers and the dispatcher\<close>

text \<open>
  A channel of \<^verbatim>\<open>struct{}\<close> that is only ever closed or selected on: nil, open, or
  closed.  \<^verbatim>\<open>NewWorker\<close> leaves the field \<^verbatim>\<open>stop\<close> out of its struct literal, so the
  workers it makes hold the nil channel.
\<close>

datatype stop_chan = NilChan | OpenChan | ClosedChan

record Worker =
  point :: string
  messageQueue :: "bytes list"
  errorTimestamps :: "Time list"
  blockedUntil :: Time
  stop :: stop_chan

text \<open>
  The worker's pointer to its \<^verbatim>\<open>Callback\<close> is only read, for the retry settings and the
  transport; the operations below take the \<^verbatim>\<open>Callback\<close> as an argument instead.  What
  a worker sends to the result channel it shares with the others is given as the list
  of its envelopes, in the order of the sends.
\<close>

record Callback =
  transport :: Transport
  deliveryMode :: DeliveryMode
  endPoints :: "Worker list"
  retryLimit :: int
  retryTimeout :: Duration
  retryWindow :: Duration
  roundRobinIndex :: "32 word"


section \<open>The worker (worker.go)\<close>

text \<open>
  How a call leaves: it returns a value, it panics with the runtime's message, or it
  waits on a send to a full channel.  The state at that moment is given next to it.
\<close>

datatype 'r exit = Returns 'r | Panics string | Blocks

text \<open>
  \<^verbatim>\<open>NewWorker\<close>: \<^verbatim>\<open>make([]time.Time, 0, c.retryLimit)\<close> panics on a negative capacity and
  on one whose size in bytes is beyond what the runtime allocates at once (\<open>maxAlloc\<close>,
  \<open>2^48\<close> on 64-bit Linux, for stamps of 24 bytes each); below that bound the memory is
  taken to be there.  The queue is made empty with room for 100 payloads; the fields
  \<^verbatim>\<open>blockedUntil\<close> and \<^verbatim>\<open>stop\<close> are not in the literal and keep their zero values.
\<close>

definition queueCap :: nat where
  "queueCap = 100"

definition maxAlloc :: int where
  "maxAlloc = 2 ^ 48"

definition sizeofTime :: int where
  "sizeofTime = 24"

definition NewWorker :: "Callback \<Rightarrow> string \<Rightarrow> string + Worker" where
  "NewWorker c p =
    (if retryLimit c < 0 \<or> maxAlloc < sizeofTime * retryLimit c then
       Inl ''makeslice: cap out of range''
     else Inr \<lparr>point = p, messageQueue = [], errorTimestamps = [],
               blockedUntil = zeroTime, stop = NilChan\<rparr>)"

text \<open>
  \<^verbatim>\<open>Inc\<close>, with the reading of \<^verbatim>\<open>time.Now()\<close> as \<open>now\<close>.  The loop appends to
  \<^verbatim>\<open>errorTimestamps[:0]\<close> the stamps that are after \<open>windowStart\<close>, in order.  The
  window starts at \<^verbatim>\<open>now.Add(-w.callback.retryWindow)\<close>, the negation being that of
  \<^verbatim>\<open>int64\<close>.
\<close>

definition keepRecent :: "Time \<Rightarrow> Time list \<Rightarrow> Time list" where
  "keepRecent windowStart stamps =
    fold (\<lambda>timestamp filteredErrors.
            if windowStart < timestamp then filteredErrors @ [timestamp]
            else filteredErrors) stamps []"

definition Inc :: "Callback \<Rightarrow> Time \<Rightarrow> Worker \<Rightarrow> bool \<times> Worker" where
  "Inc c now w =
    (let windowStart = Add now (- retryWindow c);
         w = w\<lparr>errorTimestamps := keepRecent windowStart (errorTimestamps w)\<rparr>;
         w = w\<lparr>errorTimestamps := errorTimestamps w @ [now]\<rparr>
     in if retryLimit c < int (length (errorTimestamps w)) then
          (True, if blockedUntil w < now then w\<lparr>blockedUntil := Add now (retryTimeout c)\<rparr>
                 else w)
        else (now < blockedUntil w, w))"

definition Reset :: "Worker \<Rightarrow> Worker" where
  "Reset w = w\<lparr>errorTimestamps := [], blockedUntil := zeroTime\<rparr>"

text \<open>\<^verbatim>\<open>close\<close> of a nil channel and of a closed channel are run-time panics.\<close>

definition Close :: "Worker \<Rightarrow> string + Worker" where
  "Close w =
    (case stop w of
       NilChan \<Rightarrow> Inl ''close of nil channel''
     | ClosedChan \<Rightarrow> Inl ''close of closed channel''
     | OpenChan \<Rightarrow> Inr (w\<lparr>stop := ClosedChan\<rparr>))"

text \<open>The availability test of the router: \<^verbatim>\<open>time.Now().After(worker.blockedUntil)\<close>.\<close>

definition available :: "Time \<Rightarrow> Worker \<Rightarrow> bool" where
  "available now w = (blockedUntil w < now)"

definition sendReturn :: "Worker \<Rightarrow> iface \<Rightarrow> Data" where
  "sendReturn w result =
    (case result of
       IResponse p \<Rightarrow> \<lparr>Point = point w, Success = True, Response = p, Error = None\<rparr>
     | IError p \<Rightarrow> \<lparr>Point = point w, Success = False, Response = None, Error = p\<rparr>
     | IOther \<Rightarrow>
         \<lparr>Point = point w, Success = False, Response = None,
          Error = Some \<lparr>Code = 0, Message = ''Unknown result type'', Critical = False\<rparr>\<rparr>)"

text \<open>
  \<^verbatim>\<open>transport.Post\<close> is the world outside: it answers with a body, with an error, or
  it panics.  \<^verbatim>\<open>handlerRequest\<close> calls it for REST and refuses every other transport.
\<close>

datatype post_result = PostOk bytes | PostErr string | PostPanic string

type_synonym post = "string \<Rightarrow> bytes \<Rightarrow> post_result"

definition handlerRequest :: "Callback \<Rightarrow> post \<Rightarrow> Worker \<Rightarrow> bytes \<Rightarrow> post_result" where
  "handlerRequest c Post w data =
    (if transport c = REST then Post (point w) data
     else PostErr ''transport is not support'')"

text \<open>
  What the goroutine of a worker meets while it runs: the transport, the clock read by
  the \<open>k\<close>-th call of \<^verbatim>\<open>Inc\<close>, and the choice \<^verbatim>\<open>select\<close> makes at its \<open>k\<close>-th turn when
  a payload is queued and \<^verbatim>\<open>stop\<close> is closed, so that both cases are ready.
\<close>

record world =
  Post :: post
  Now :: "nat \<Rightarrow> Time"
  chooseStop :: "nat \<Rightarrow> bool"

text \<open>
  The \<^verbatim>\<open>for { select ... }\<close> of \<^verbatim>\<open>handler\<close>, from its \<open>k\<close>-th turn on, with the
  envelopes sent to \<^verbatim>\<open>returnChannel\<close> in order.  It leaves by \<^verbatim>\<open>return\<close> on the stop
  case, by a panic of the transport (the payload received is gone, the rest of the
  queue is as it was), or it waits in \<^verbatim>\<open>select\<close> with nothing ready.  A receive on a
  nil or open, never written channel is never ready.
\<close>

datatype loop_exit = Stopped | Waiting | Panicked string

function handlerLoop ::
  "Callback \<Rightarrow> world \<Rightarrow> nat \<Rightarrow> Worker \<Rightarrow> loop_exit \<times> nat \<times> Worker \<times> Data list" where
  "handlerLoop c env k w =
    (case messageQueue w of
       [] \<Rightarrow> (if stop w = ClosedChan then Stopped else Waiting, k, w, [])
     | data # rest \<Rightarrow>
         if stop w = ClosedChan \<and> chooseStop env k then (Stopped, k, w, [])
         else
           let w = w\<lparr>messageQueue := rest\<rparr> in
           (case handlerRequest c (Post env) w data of
              PostPanic r \<Rightarrow> (Panicked r, Suc k, w, [])
            | PostErr err \<Rightarrow>
                let w = snd (Inc c (Now env k) w);
                    d = sendReturn w (IError (Some
                          \<lparr>Code = 0, Message = ''[ERROR] '' @ err, Critical = True\<rparr>));
                    (e, k', w', ds) = handlerLoop c env (Suc k) w
                in (e, k', w', d # ds)
            | PostOk res \<Rightarrow>
                let w = Reset w;
                    d = sendReturn w (IResponse (Some \<lparr>Data = res\<rparr>));
                    (e, k', w', ds) = handlerLoop c env (Suc k) w
                in (e, k', w', d # ds)))"
  by pat_completeness auto


lemma Inc_messageQueue: "messageQueue (snd (Inc c now w)) = messageQueue w"
  by (simp add: Inc_def Let_def)

lemma Reset_messageQueue: "messageQueue (Reset w) = messageQueue w"
  by (simp add: Reset_def)

termination handlerLoop
  by (relation "measure (\<lambda>(c, env, k, w). length (messageQueue w))")
     (simp_all add: Inc_messageQueue Reset_messageQueue)

declare handlerLoop.simps [simp del]

lemma handlerLoop_empty:
  "messageQueue w = [] \<Longrightarrow>
   handlerLoop c env k w = (if stop w = ClosedChan then Stopped else Waiting, k, w, [])"
  by (subst handlerLoop.simps) simp

lemma handlerLoop_stop:
  "messageQueue w = data # rest \<Longrightarrow> stop w = ClosedChan \<and> chooseStop env k \<Longrightarrow>
   handlerLoop c env k w = (Stopped, k, w, [])"
  by (subst handlerLoop.simps) simp

lemma handlerLoop_PostPanic:
  "messageQueue w = data # rest \<Longrightarrow> \<not> (stop w = ClosedChan \<and> chooseStop env k) \<Longrightarrow>
   handlerRequest c (Post env) (w\<lparr>messageQueue := rest\<rparr>) data = PostPanic r \<Longrightarrow>
   handlerLoop c env k w = (Panicked r, Suc k, w\<lparr>messageQueue := rest\<rparr>, [])"
  by (subst handlerLoop.simps) simp

lemma handlerLoop_PostErr:
  "messageQueue w = data # rest \<Longrightarrow> \<not> (stop w = ClosedChan \<and> chooseStop env k) \<Longrightarrow>
   handlerRequest c (Post env) (w\<lparr>messageQueue := rest\<rparr>) data = PostErr err \<Longrightarrow>
   w1 = snd (Inc c (Now env k) (w\<lparr>messageQueue := rest\<rparr>)) \<Longrightarrow>
   handlerLoop c env k w =
     (fst (handlerLoop c env (Suc k) w1),
      fst (snd (handlerLoop c env (Suc k) w1)),
      fst (snd (snd (handlerLoop c env (Suc k) w1))),
      sendReturn w1 (IError (Some
        \<lparr>Code = 0, Message = ''[ERROR] '' @ err, Critical = True\<rparr>))
      # snd (snd (snd (handlerLoop c env (Suc k) w1))))"
  by (subst handlerLoop.simps) (simp add: case_prod_unfold Let_def)

lemma handlerLoop_PostOk:
  "messageQueue w = data # rest \<Longrightarrow> \<not> (stop w = ClosedChan \<and> chooseStop env k) \<Longrightarrow>
   handlerRequest c (Post env) (w\<lparr>messageQueue := rest\<rparr>) data = PostOk res \<Longrightarrow>
   w1 = Reset (w\<lparr>messageQueue := rest\<rparr>) \<Longrightarrow>
   handlerLoop c env k w =
     (fst (handlerLoop c env (Suc k) w1),
      fst (snd (handlerLoop c env (Suc k) w1)),
      fst (snd (snd (handlerLoop c env (Suc k) w1))),
      sendReturn w1 (IResponse (Some \<lparr>Data = res\<rparr>))
      # snd (snd (snd (handlerLoop c env (Suc k) w1))))"
  by (subst handlerLoop.simps) (simp add: case_prod_unfold Let_def)

lemma handlerLoop_queue_le:
  "length (messageQueue (fst (snd (snd (handlerLoop c env k w))))) \<le> length (messageQueue w)"
proof (induction c env k w rule: handlerLoop.induct)
  case (1 c env k w)
  show ?case
  proof (cases "messageQueue w")
    case Nil
    then show ?thesis by (simp add: handlerLoop_empty)
  next
    case (Cons data rest)
    let ?w = "w\<lparr>messageQueue := rest\<rparr>"
    show ?thesis
    proof (cases "stop w = ClosedChan \<and> chooseStop env k")
      case True
      with Cons show ?thesis by (simp add: handlerLoop_stop)
    next
      case False
      show ?thesis
      proof (cases "handlerRequest c (Post env) ?w data")
        case (PostOk res)
        from "1.IH"(1) [OF Cons False refl PostOk refl refl]
        have "length (messageQueue (fst (snd (snd (handlerLoop c env (Suc k) (Reset ?w))))))
                \<le> length rest"
          by (simp add: Reset_messageQueue)
        then show ?thesis
          by (simp add: handlerLoop_PostOk [OF Cons False PostOk refl] Cons)
      next
        case (PostErr err)
        from "1.IH"(2) [OF Cons False refl PostErr refl refl]
        have "length (messageQueue (fst (snd (snd
                (handlerLoop c env (Suc k) (snd (Inc c (Now env k) ?w)))))))
                \<le> length rest"
          by (simp add: Inc_messageQueue)
        then show ?thesis
          by (simp add: handlerLoop_PostErr [OF Cons False PostErr refl] Cons)
      next
        case (PostPanic r)
        then show ?thesis
          by (simp add: handlerLoop_PostPanic [OF Cons False PostPanic] Cons)
      qed
    qed
  qed
qed

lemma handlerLoop_Panicked_shorter:
  assumes "fst (handlerLoop c env k w) = Panicked r"
  shows "length (messageQueue (fst (snd (snd (handlerLoop c env k w))))) < length (messageQueue w)"
proof (cases "messageQueue w")
  case Nil
  with assms show ?thesis by (simp add: handlerLoop_empty split: if_splits)
next
  case (Cons data rest)
  let ?w = "w\<lparr>messageQueue := rest\<rparr>"
  show ?thesis
  proof (cases "stop w = ClosedChan \<and> chooseStop env k")
    case True
    with Cons assms show ?thesis by (simp add: handlerLoop_stop)
  next
    case False
    show ?thesis
    proof (cases "handlerRequest c (Post env) ?w data")
      case (PostOk res)
      have "length (messageQueue (fst (snd (snd (handlerLoop c env (Suc k) (Reset ?w))))))
              \<le> length rest"
        using handlerLoop_queue_le [of c env "Suc k" "Reset ?w"]
        by (simp add: Reset_messageQueue)
      then show ?thesis
        by (simp add: handlerLoop_PostOk [OF Cons False PostOk refl] Cons)
    next
      case (PostErr err)
      have "length (messageQueue (fst (snd (snd
              (handlerLoop c env (Suc k) (snd (Inc c (Now env k) ?w)))))))
              \<le> length rest"
        using handlerLoop_queue_le [of c env "Suc k" "snd (Inc c (Now env k) ?w)"]
        by (simp add: Inc_messageQueue)
      then show ?thesis
        by (simp add: handlerLoop_PostErr [OF Cons False PostErr refl] Cons)
    next
      case (PostPanic r')
      then show ?thesis
        by (simp add: handlerLoop_PostPanic [OF Cons False PostPanic] Cons)
    qed
  qed
qed

text \<open>
  \<^verbatim>\<open>handler\<close>: the loop under its deferred function.  When the loop panics, the deferred
  function sends the envelope of the panic and runs \<^verbatim>\<open>go w.handler()\<close>: a new instance on
  the same worker and the same queue.  The second component counts the instances started
  that way.
\<close>

function handler ::
  "Callback \<Rightarrow> world \<Rightarrow> nat \<Rightarrow> Worker \<Rightarrow> loop_exit \<times> nat \<times> Worker \<times> Data list" where
  "handler c env k w =
    (let run = handlerLoop c env k w; k' = fst (snd run); w' = fst (snd (snd run));
         ds = snd (snd (snd run))
     in case fst run of
          Panicked r \<Rightarrow>
            let d = sendReturn w' (IError (Some
                      \<lparr>Code = 0, Message = ''[PANIC] '' @ r, Critical = True\<rparr>));
                (e, n, w'', ds') = handler c env k' w'
            in (e, Suc n, w'', ds @ d # ds')
        | e \<Rightarrow> (e, 0, w', ds))"
  by pat_completeness auto
termination
  by (relation "measure (\<lambda>(c, env, k, w). length (messageQueue w))")
     (simp_all add: handlerLoop_Panicked_shorter)


declare handler.simps [simp del]

section \<open>The dispatcher (callback.go, round_robin.go)\<close>

text \<open>\<^verbatim>\<open>findWorkerIndex\<close>: the index of the first worker bound to the endpoint, or -1.\<close>

fun findFrom :: "int \<Rightarrow> Worker list \<Rightarrow> string \<Rightarrow> int" where
  "findFrom i [] endPoint = -1"
| "findFrom i (worker # ws) endPoint =
     (if point worker = endPoint then i else findFrom (i + 1) ws endPoint)"

definition findWorkerIndex :: "Callback \<Rightarrow> string \<Rightarrow> int" where
  "findWorkerIndex c endPoint = findFrom 0 (endPoints c) endPoint"

text \<open>\<^verbatim>\<open>append(s[:i], s[i+1:]...)\<close> for an index within the slice.\<close>

definition removeAt :: "nat \<Rightarrow> 'a list \<Rightarrow> 'a list" where
  "removeAt i xs = take i xs @ drop (Suc i) xs"

definition AddEndpoint :: "Callback \<Rightarrow> string \<Rightarrow> unit exit \<times> Callback" where
  "AddEndpoint c host =
    (if findWorkerIndex c host \<noteq> -1 then (Returns (), c)
     else case NewWorker c host of
            Inl msg \<Rightarrow> (Panics msg, c)
          | Inr worker \<Rightarrow> (Returns (), c\<lparr>endPoints := endPoints c @ [worker]\<rparr>))"

text \<open>
  \<^verbatim>\<open>DeleteEndpoint\<close>: a panic of \<^verbatim>\<open>Close\<close> leaves before the slice is touched (the deferred
  unlock does not recover it).
\<close>

definition DeleteEndpoint :: "Callback \<Rightarrow> string \<Rightarrow> unit exit \<times> Callback" where
  "DeleteEndpoint c host =
    (let index = findWorkerIndex c host
     in if index = -1 then (Returns (), c)
        else case Close (endPoints c ! nat index) of
               Inl msg \<Rightarrow> (Panics msg, c)
             | Inr closed \<Rightarrow>
                 (Returns (), c\<lparr>endPoints := removeAt (nat index) (endPoints c)\<rparr>))"

text \<open>
  \<^verbatim>\<open>SyncEndPoint\<close>.  The first loop runs \<open>i\<close> from \<open>len - 1\<close> down to 0; \<open>removeOutdated\<close>
  is that loop with \<open>i + 1\<close> as its counter.  The second loop is \<open>addMissing\<close>.
\<close>

fun removeOutdated :: "string list \<Rightarrow> nat \<Rightarrow> Callback \<Rightarrow> unit exit \<times> Callback" where
  "removeOutdated hosts 0 c = (Returns (), c)"
| "removeOutdated hosts (Suc i) c =
     (let worker = endPoints c ! i
      in if point worker \<notin> set hosts then
           (case Close worker of
              Inl msg \<Rightarrow> (Panics msg, c)
            | Inr closed \<Rightarrow>
                removeOutdated hosts i (c\<lparr>endPoints := removeAt i (endPoints c)\<rparr>))
         else removeOutdated hosts i c)"

fun addMissing :: "string list \<Rightarrow> Callback \<Rightarrow> unit exit \<times> Callback" where
  "addMissing [] c = (Returns (), c)"
| "addMissing (host # hosts) c =
     (if findWorkerIndex c host = -1 then
        (case NewWorker c host of
           Inl msg \<Rightarrow> (Panics msg, c)
         | Inr worker \<Rightarrow> addMissing hosts (c\<lparr>endPoints := endPoints c @ [worker]\<rparr>))
      else addMissing hosts c)"

definition SyncEndPoint :: "Callback \<Rightarrow> string list \<Rightarrow> unit exit \<times> Callback" where
  "SyncEndPoint c hosts =
    (case removeOutdated hosts (length (endPoints c)) c of
       (Returns u, c') \<Rightarrow> addMissing hosts c'
     | (e, c') \<Rightarrow> (e, c'))"

text \<open>\<^verbatim>\<open>New\<close>: the options with their defaults, no worker yet, the cursor at 0.\<close>

definition New :: "Options \<Rightarrow> unit exit \<times> Callback" where
  "New opt =
    (let opt = defaultOptions opt;
         callback = \<lparr>transport = Transport opt, deliveryMode = DeliveryMode opt,
                     endPoints = [], retryLimit = RetryLimit opt,
                     retryTimeout = RetryTimeout opt, retryWindow = RetryWindow opt,
                     roundRobinIndex = 0\<rparr>
     in SyncEndPoint callback (EndPoints opt))"

text \<open>
  \<^verbatim>\<open>roundRobin\<close>, from the \<open>i\<close>-th turn of its loop on; \<open>now i\<close> is what \<^verbatim>\<open>time.Now()\<close>
  reads in that turn.  \<^verbatim>\<open>roundRobinIndex.Add(1)\<close> adds 1 to the 32-bit counter and
  gives the new value; \<^verbatim>\<open>int(...)\<close> extends its sign; Go's \<^verbatim>\<open>%\<close> truncates, so the
  remainder has the sign of the dividend (\<open>smod\<close>); an index outside the slice is a
  run-time panic.  \<open>sendTo\<close> is \<^verbatim>\<open>worker.messageQueue <- data\<close> followed by
  \<^verbatim>\<open>return nil\<close>: a send to a queue that holds \<open>queueCap\<close> payloads waits.
\<close>

definition errAllBlocked :: string where
  "errAllBlocked = ''all endpoints are blocked due to unavailability''"

definition sendTo :: "nat \<Rightarrow> bytes \<Rightarrow> Callback \<Rightarrow> string option exit \<times> Callback" where
  "sendTo index data c =
    (let worker = endPoints c ! index
     in if length (messageQueue worker) < queueCap then
          (Returns None,
           c\<lparr>endPoints := (endPoints c)
              [index := worker\<lparr>messageQueue := messageQueue worker @ [data]\<rparr>]\<rparr>)
        else (Blocks, c))"

function roundRobinFrom ::
  "nat \<Rightarrow> (nat \<Rightarrow> Time) \<Rightarrow> Callback \<Rightarrow> bytes \<Rightarrow> string option exit \<times> Callback" where
  "roundRobinFrom i now c data =
    (if i < length (endPoints c) then
       let added = roundRobinIndex c + 1;
           c = c\<lparr>roundRobinIndex := added\<rparr>;
           index = sint (added - 1) smod int (length (endPoints c))
       in if index < 0 \<or> int (length (endPoints c)) \<le> index then
            (Panics ''index out of range'', c)
          else if \<not> available (now i) (endPoints c ! nat index) then
            roundRobinFrom (i + 1) now c data
          else sendTo (nat index) data c
     else (Returns (Some errAllBlocked), c))"
  by pat_completeness auto
termination
  by (relation "measure (\<lambda>(i, now, c, data). length (endPoints c) - i)") simp_all

declare roundRobinFrom.simps [simp del]

definition roundRobin ::
  "(nat \<Rightarrow> Time) \<Rightarrow> Callback \<Rightarrow> bytes \<Rightarrow> string option exit \<times> Callback" where
  "roundRobin now c data = roundRobinFrom 0 now c data"

text \<open>
  \<^verbatim>\<open>Emit\<close> calls \<^verbatim>\<open>c.roundRobin(data)\<close> as a statement, so the error it returns is
  dropped, and returns nil on every path; a panic or a wait inside is not a return.
\<close>

definition Emit :: "(nat \<Rightarrow> Time) \<Rightarrow> Callback \<Rightarrow> bytes \<Rightarrow> string option exit \<times> Callback" where
  "Emit now c data =
    (if deliveryMode c = RoundRobin then
       (case roundRobin now c data of
          (Returns err, c') \<Rightarrow> (Returns None, c')
        | (e, c') \<Rightarrow> (e, c'))
     else if deliveryMode c = Broadcast then (Returns None, c)
     else (Returns None, c))"


text \<open>
  Calls of \<^verbatim>\<open>Emit\<close> one after the other, the \<open>j\<close>-th of them reading the clock \<open>now j\<close>,
  up to the first that does not return.
\<close>

fun emits ::
  "(nat \<Rightarrow> nat \<Rightarrow> Time) \<Rightarrow> nat \<Rightarrow> Callback \<Rightarrow> bytes list \<Rightarrow> string option exit \<times> Callback" where
  "emits now j c [] = (Returns None, c)"
| "emits now j c (data # payloads) =
     (case Emit (now j) c data of
        (Returns err, c') \<Rightarrow> emits now (Suc j) c' payloads
      | (e, c') \<Rightarrow> (e, c'))"

text \<open>
  Of a run of payloads numbered from \<open>s\<close> on, those whose number is \<open>i\<close> modulo \<open>n\<close>, in
  order: what the worker at index \<open>i\<close> of \<open>n\<close> is owed when the cursor starts at \<open>s\<close>.
\<close>

definition delivered :: "nat \<Rightarrow> nat \<Rightarrow> bytes list \<Rightarrow> nat \<Rightarrow> bytes list" where
  "delivered s n payloads i =
     map snd (filter (\<lambda>(j, data). j mod n = i) (enumerate s payloads))"

text \<open>
  A run of failures: \<^verbatim>\<open>Inc\<close> called once for each reading of the clock in the list, in
  order, as the loop of \<^verbatim>\<open>handler\<close> does for each payload the transport refuses.
\<close>

definition failures :: "Callback \<Rightarrow> Time list \<Rightarrow> Worker \<Rightarrow> Worker" where
  "failures c stamps w = fold (\<lambda>now w. snd (Inc c now w)) stamps w"

text \<open>
  Two inputs to run the operations on: a dispatcher with retry limit 2, retry window 10
  and retry timeout 5 (in nanoseconds), and a worker as \<^verbatim>\<open>NewWorker\<close> makes it.
\<close>

definition demoCallback :: Callback where
  "demoCallback =
    \<lparr>transport = REST, deliveryMode = RoundRobin, endPoints = [], retryLimit = 2,
     retryTimeout = 5, retryWindow = 10, roundRobinIndex = 0\<rparr>"

definition demoWorker :: Worker where
  "demoWorker =
    \<lparr>point = ''a'', messageQueue = [], errorTimestamps = [], blockedUntil = zeroTime,
     stop = NilChan\<rparr>"


text \<open>
  The envelope owed to a payload, by what the transport did with it: the body, the
  error under \<^verbatim>\<open>[ERROR]\<close>, or the panic under \<^verbatim>\<open>[PANIC]\<close>, for the endpoint \<open>p\<close>.
\<close>

definition envelopeOf :: "string \<Rightarrow> post_result \<Rightarrow> Data" where
  "envelopeOf p res =
    (case res of
       PostOk body \<Rightarrow>
         \<lparr>Point = p, Success = True, Response = Some \<lparr>Data = body\<rparr>, Error = None\<rparr>
     | PostErr err \<Rightarrow>
         \<lparr>Point = p, Success = False, Response = None,
          Error = Some \<lparr>Code = 0, Message = ''[ERROR] '' @ err, Critical = True\<rparr>\<rparr>
     | PostPanic r \<Rightarrow>
         \<lparr>Point = p, Success = False, Response = None,
          Error = Some \<lparr>Code = 0, Message = ''[PANIC] '' @ r, Critical = True\<rparr>\<rparr>)"

definition demoWorld :: world where
  "demoWorld =
    \<lparr>Post = (\<lambda>endPoint data.
              if data = [1] then PostPanic ''boom''
              else if data = [2] then PostErr ''refused'' else PostOk data),
     Now = (\<lambda>k. 100 + int k), chooseStop = (\<lambda>k. False)\<rparr>"

definition demoQueued :: Worker where
  "demoQueued = demoWorker\<lparr>messageQueue := [[1], [2], [3]]\<rparr>"

text \<open>
  A dispatcher with three workers, the second blocked until 70, and the cursor at 1.
\<close>

definition demoThree :: Callback where
  "demoThree =
    \<lparr>transport = REST, deliveryMode = RoundRobin,
     endPoints =
       [\<lparr>point = ''a'', messageQueue = [], errorTimestamps = [], blockedUntil = zeroTime,
         stop = NilChan\<rparr>,
        \<lparr>point = ''b'', messageQueue = [], errorTimestamps = [], blockedUntil = 70,
         stop = NilChan\<rparr>,
        \<lparr>point = ''c'', messageQueue = [], errorTimestamps = [], blockedUntil = zeroTime,
         stop = NilChan\<rparr>],
     retryLimit = 5, retryTimeout = 5 * Second, retryWindow = 3 * Second,
     roundRobinIndex = 1\<rparr>"

text \<open>
  Options that leave every setting to its default and name two endpoints, the
  dispatcher \<^verbatim>\<open>New\<close> makes of them, and the same dispatcher with both workers blocked
  until 70.
\<close>

definition demoOptions :: Options where
  "demoOptions =
    \<lparr>Transport = [], DeliveryMode = [], RetryMode = [], EndPoints = [''a'', ''b''],
     RetryLimit = 0, RetryTimeout = 0, RetryWindow = 0\<rparr>"

definition demoPair :: Callback where
  "demoPair =
    \<lparr>transport = REST, deliveryMode = RoundRobin,
     endPoints =
       [\<lparr>point = ''a'', messageQueue = [], errorTimestamps = [], blockedUntil = zeroTime,
         stop = NilChan\<rparr>,
        \<lparr>point = ''b'', messageQueue = [], errorTimestamps = [], blockedUntil = zeroTime,
         stop = NilChan\<rparr>],
     retryLimit = 5, retryTimeout = 5 * Second, retryWindow = 3 * Second,
     roundRobinIndex = 0\<rparr>"

definition demoBlocked :: Callback where
  "demoBlocked = demoPair\<lparr>endPoints := map (\<lambda>w. w\<lparr>blockedUntil := 70\<rparr>) (endPoints demoPair)\<rparr>"

section \<open>Defaults of the options\<close>

text \<open>
  Claim C9.  \<^verbatim>\<open>defaultOptions\<close> gives every field that holds its zero value (the empty
  string, 0) its default: transport REST, delivery mode round-robin, retry mode next,
  retry limit 5, retry timeout 5 seconds, retry window 3 seconds.  Every field that is
  set, and the list of endpoints, comes back as it was given.
\<close>

theorem defaultOptions_fields:
  "defaultOptions opt =
     \<lparr>Transport = (if Transport opt = [] then REST else Transport opt),
      DeliveryMode = (if DeliveryMode opt = [] then RoundRobin else DeliveryMode opt),
      RetryMode = (if RetryMode opt = [] then Next else RetryMode opt),
      EndPoints = EndPoints opt,
      RetryLimit = (if RetryLimit opt = 0 then 5 else RetryLimit opt),
      RetryTimeout = (if RetryTimeout opt = 0 then 5 * Second else RetryTimeout opt),
      RetryWindow = (if RetryWindow opt = 0 then 3 * Second else RetryWindow opt)\<rparr>"
  by (simp add: defaultOptions_def)

section \<open>The circuit breaker\<close>

lemma failures_fixed:
  "point (failures c stamps w) = point w \<and>
   messageQueue (failures c stamps w) = messageQueue w \<and>
   stop (failures c stamps w) = stop w"
  unfolding failures_def
  by (induction stamps arbitrary: w) (simp_all add: Inc_def Let_def)

lemma fold_keep:
  "fold (\<lambda>timestamp filteredErrors.
            if ws < timestamp then filteredErrors @ [timestamp]
            else filteredErrors) xs acc = acc @ filter (\<lambda>t. ws < t) xs"
  by (induction xs arbitrary: acc) simp_all

lemma keepRecent_filter: "keepRecent ws xs = filter (\<lambda>t. ws < t) xs"
  by (simp add: keepRecent_def fold_keep)

lemma Inc_stamps:
  "errorTimestamps (snd (Inc c now w)) =
     filter (\<lambda>t. Add now (- retryWindow c) < t) (errorTimestamps w) @ [now]"
  by (simp add: Inc_def Let_def keepRecent_filter)

lemma Inc_blockedUntil:
  "blockedUntil (snd (Inc c now w)) =
     (if retryLimit c < int (length (errorTimestamps (snd (Inc c now w)))) \<and> blockedUntil w < now
      then Add now (retryTimeout c) else blockedUntil w)"
  by (simp add: Inc_def Let_def keepRecent_filter)

lemma Inc_fixed:
  "point (snd (Inc c now w)) = point w \<and> messageQueue (snd (Inc c now w)) = messageQueue w \<and>
   stop (snd (Inc c now w)) = stop w"
  by (simp add: Inc_def Let_def)

text \<open>The negation of a duration is the negation of its value, but for the least one.\<close>

lemma sint_least: "sint (- 9223372036854775808 :: 64 word) = - 9223372036854775808"
  by simp

lemma sint_minus_Duration:
  fixes d :: Duration
  assumes "d \<noteq> - 9223372036854775808"
  shows "sint (- d) = - sint d"
proof -
  have "sint d \<noteq> - 9223372036854775808"
  proof
    assume "sint d = - 9223372036854775808"
    then have "sint d = sint (- 9223372036854775808 :: 64 word)"
      by (simp only: sint_least)
    then have "d = - 9223372036854775808" by (rule signed_word_eqI)
    with assms show False by contradiction
  qed
  then have "sint d \<noteq> - (2 ^ 63)" by simp
  moreover have "- (2 ^ 63) \<le> sint d" "sint d < 2 ^ 63"
    using sint_ge [of d] sint_lt [of d] by simp_all
  ultimately have "- (2 ^ 63) \<le> - sint d" "- sint d < 2 ^ 63" by linarith+
  then have "signed_take_bit 63 (- sint d) = - sint d"
    by (simp add: signed_take_bit_int_eq_self)
  then show ?thesis by (simp add: sint_word_minus)
qed

lemma Add_minus:
  "d \<noteq> - 9223372036854775808 \<Longrightarrow> Add t (- d) = t - sint d"
  by (simp add: Add_def sint_minus_Duration)

lemma Add_minus_least:
  "Add t (- (- 9223372036854775808)) = t - 9223372036854775808"
  by (simp add: Add_def)

lemma failures_Nil: "failures c [] w = w"
  by (simp add: failures_def)

lemma failures_Cons: "failures c (x # xs) w = failures c xs (snd (Inc c x w))"
  by (simp add: failures_def)

lemma failures_snoc: "failures c (xs @ [x]) w = snd (Inc c x (failures c xs w))"
  by (simp add: failures_def)

lemma failures_kept:
  "(\<forall>x\<in>set xs. Add x (- retryWindow c) \<le> lo \<and> lo < x) \<Longrightarrow>
   length xs \<le> length (filter (\<lambda>t. lo < t) (errorTimestamps (failures c xs w)))"
proof (induction xs rule: rev_induct)
  case Nil
  then show ?case by simp
next
  case (snoc x xs)
  then have IH: "length xs \<le> length (filter (\<lambda>t. lo < t) (errorTimestamps (failures c xs w)))"
    by simp
  from snoc.prems have x: "Add x (- retryWindow c) \<le> lo" "lo < x" by simp_all
  have "filter (\<lambda>t. lo < t)
          (filter (\<lambda>t. Add x (- retryWindow c) < t) (errorTimestamps (failures c xs w)))
      = filter (\<lambda>t. lo < t) (errorTimestamps (failures c xs w))"
    using x(1) by (auto intro: filter_cong)
  with IH x(2) show ?case
    by (simp add: failures_snoc Inc_stamps)
qed

lemma failures_blocked_le:
  "(\<forall>x\<in>set xs. x \<le> m) \<Longrightarrow> blockedUntil w \<le> Add m (retryTimeout c) \<Longrightarrow>
   blockedUntil (failures c xs w) \<le> Add m (retryTimeout c)"
proof (induction xs arbitrary: w)
  case Nil
  then show ?case by (simp add: failures_Nil)
next
  case (Cons x xs)
  have "blockedUntil (snd (Inc c x w)) \<le> Add m (retryTimeout c)"
    using Cons.prems by (simp add: Inc_blockedUntil Add_def)
  with Cons show ?case by (simp add: failures_Cons)
qed

lemma failures_not_tripped:
  "int (length (errorTimestamps w)) + int (length xs) \<le> retryLimit c \<Longrightarrow>
   blockedUntil (failures c xs w) = blockedUntil w"
proof (induction xs arbitrary: w)
  case Nil
  then show ?case by (simp add: failures_Nil)
next
  case (Cons x xs)
  have len: "length (errorTimestamps (snd (Inc c x w))) \<le> length (errorTimestamps w) + 1"
    by (simp add: Inc_stamps)
  with Cons.prems have "blockedUntil (snd (Inc c x w)) = blockedUntil w"
    by (simp add: Inc_blockedUntil)
  moreover from len Cons.prems
  have "int (length (errorTimestamps (snd (Inc c x w)))) + int (length xs) \<le> retryLimit c"
    by simp
  ultimately show ?case using Cons.IH [of "snd (Inc c x w)"] by (simp add: failures_Cons)
qed

lemma failures_trips:
  assumes ne: "stamps \<noteq> []"
    and win: "\<forall>t\<in>set stamps. Add (last stamps) (- retryWindow c) < t \<and> t \<le> last stamps"
    and many: "retryLimit c < int (length stamps)"
  shows "blockedUntil (failures c stamps w) =
    (if blockedUntil (failures c (butlast stamps) w) < last stamps
     then Add (last stamps) (retryTimeout c)
     else blockedUntil (failures c (butlast stamps) w))"
proof -
  let ?xs = "butlast stamps" and ?x = "last stamps"
  let ?lo = "Add ?x (- retryWindow c)"
  have "\<forall>x\<in>set ?xs. Add x (- retryWindow c) \<le> ?lo \<and> ?lo < x"
    using win by (auto simp: Add_def dest: in_set_butlastD)
  then have kept:
    "length ?xs \<le> length (filter (\<lambda>t. ?lo < t) (errorTimestamps (failures c ?xs w)))"
    by (rule failures_kept)
  have len: "length stamps = Suc (length ?xs)" using ne by simp
  have "length (errorTimestamps (snd (Inc c ?x (failures c ?xs w)))) =
      Suc (length (filter (\<lambda>t. ?lo < t) (errorTimestamps (failures c ?xs w))))"
    by (simp add: Inc_stamps)
  with kept len many have "retryLimit c <
      int (length (errorTimestamps (snd (Inc c ?x (failures c ?xs w)))))"
    by linarith
  then have "blockedUntil (snd (Inc c ?x (failures c ?xs w))) =
    (if blockedUntil (failures c ?xs w) < ?x then Add ?x (retryTimeout c)
     else blockedUntil (failures c ?xs w))"
    by (simp add: Inc_blockedUntil)
  moreover have "failures c (?xs @ [?x]) w = snd (Inc c ?x (failures c ?xs w))"
    by (rule failures_snoc)
  then have "failures c stamps w = snd (Inc c ?x (failures c ?xs w))"
    using ne by simp
  ultimately show ?thesis by (simp del: length_butlast)
qed

lemma failures_unavailable:
  assumes ne: "stamps \<noteq> []"
    and win: "\<forall>t\<in>set stamps. Add (last stamps) (- retryWindow c) < t \<and> t \<le> last stamps"
    and many: "retryLimit c < int (length stamps)"
    and T: "0 \<le> sint (retryTimeout c)"
    and B: "blockedUntil w \<le> Add (last stamps) (retryTimeout c)"
  shows "\<not> available (last stamps) (failures c stamps w)"
    and "Add (last stamps) (retryTimeout c) < t \<Longrightarrow> available t (failures c stamps w)"
proof -
  have "last stamps \<le> blockedUntil (failures c stamps w)"
    using T by (simp add: failures_trips [OF ne win many] Add_def)
  then show "\<not> available (last stamps) (failures c stamps w)"
    by (simp add: available_def)
  have "blockedUntil (failures c stamps w) \<le> Add (last stamps) (retryTimeout c)"
    using win B by (intro failures_blocked_le) simp_all
  then show "Add (last stamps) (retryTimeout c) < t \<Longrightarrow> available t (failures c stamps w)"
    by (simp add: available_def)
qed

lemma failures_fresh:
  assumes ne: "stamps \<noteq> []"
    and win: "\<forall>t\<in>set stamps. Add (last stamps) (- retryWindow c) < t \<and> t \<le> last stamps"
    and many: "int (length stamps) = retryLimit c + 1"
    and E: "errorTimestamps w = []"
    and B: "blockedUntil w < last stamps"
  shows "blockedUntil (failures c stamps w) = Add (last stamps) (retryTimeout c)"
proof -
  have "length stamps = Suc (length (butlast stamps))" using ne by simp
  with many E
  have "int (length (errorTimestamps w)) + int (length (butlast stamps)) \<le> retryLimit c"
    by (simp del: length_butlast)
  then have "blockedUntil (failures c (butlast stamps) w) = blockedUntil w"
    by (rule failures_not_tripped)
  with B show ?thesis
    using many by (simp add: failures_trips [OF ne win])
qed

text \<open>
  Claim C2.  As stated the claim fails on three inputs the code accepts, with retry
  limit 2 and a worker as \<^verbatim>\<open>NewWorker\<close> makes it:
  \<^item> with the retry timeout \<open>- 1\<close>, three failures within the window of 10 leave the
    worker available at the last of them;
  \<^item> three failures at 100, 105 and 110 span the window of 10 exactly: the first stamp is
    not after the start of the window of the last, it is dropped, and the worker is
    never blocked;
  \<^item> with the retry window \<open>- 2^63\<close>, whose negation is itself, the window of a failure
    at 108 starts \<open>2^63\<close> nanoseconds before it, and the stamp 90 is kept although it
    is older than 108 minus the retry window.
\<close>

theorem Inc_claim_counterexample:
  "int (length [100, 103, 107 :: Time]) = retryLimit (demoCallback\<lparr>retryTimeout := - 1\<rparr>) + 1 \<and>
   last [100, 103, 107] - sint (retryWindow (demoCallback\<lparr>retryTimeout := - 1\<rparr>)) < (100 :: Time) \<and>
   available 107 (failures (demoCallback\<lparr>retryTimeout := - 1\<rparr>) [100, 103, 107] demoWorker) \<and>
   int (length [100, 105, 110 :: Time]) = retryLimit demoCallback + 1 \<and>
   last [100, 105, 110] - sint (retryWindow demoCallback) = (100 :: Time) \<and>
   blockedUntil (failures demoCallback [100, 105, 110] demoWorker) = zeroTime \<and>
   available 110 (failures demoCallback [100, 105, 110] demoWorker) \<and>
   (90 :: Time) < 108 - sint (retryWindow (demoCallback\<lparr>retryWindow := - 9223372036854775808\<rparr>)) \<and>
   errorTimestamps (snd (Inc (demoCallback\<lparr>retryWindow := - 9223372036854775808\<rparr>) 108
       (demoWorker\<lparr>errorTimestamps := [90]\<rparr>))) = [90, 108]"
  by (simp add: demoCallback_def demoWorker_def zeroTime_def available_def failures_def
      Inc_def keepRecent_def Add_def Let_def)

text \<open>
  Claim C2, amended.  Every call of \<^verbatim>\<open>Inc\<close> at the reading \<open>now\<close> keeps of the stored
  stamps those strictly after the start of the window, \<^verbatim>\<open>now.Add(-retryWindow)\<close>, in
  order, and appends \<open>now\<close>; that start is \<open>now\<close> minus the retry window unless the retry
  window is the least duration, \<open>- 2^63\<close>, for which it is \<open>now - 2^63\<close>.  When the stamps
  then held are more than \<open>retryLimit\<close> and \<open>now\<close> is after \<open>blockedUntil\<close>, it sets
  \<open>blockedUntil\<close> to \<open>now\<close> plus the retry timeout, and it leaves \<open>blockedUntil\<close> alone
  otherwise.  Hence a run of more than \<open>retryLimit\<close> failures that all lie strictly after
  the start of the window of the last of them leaves the worker unavailable at the
  last failure when the retry timeout is not negative, and available at every time
  later than the retry timeout after it, with no other call, when it was not blocked
  beyond that time before; and on a worker with no stored stamp that is not blocked,
  a run of exactly \<open>retryLimit + 1\<close> such failures sets \<open>blockedUntil\<close> to the last failure
  plus the retry timeout.
\<close>

theorem Inc_trims_appends_blocks:
  "errorTimestamps (snd (Inc c now w)) =
     filter (\<lambda>t. Add now (- retryWindow c) < t) (errorTimestamps w) @ [now] \<and>
   Add now (- retryWindow c) =
     (if retryWindow c = - 9223372036854775808 then now - 9223372036854775808
      else now - sint (retryWindow c)) \<and>
   blockedUntil (snd (Inc c now w)) =
     (if retryLimit c < int (length (errorTimestamps (snd (Inc c now w)))) \<and>
         blockedUntil w < now
      then now + sint (retryTimeout c) else blockedUntil w) \<and>
   (stamps \<noteq> [] \<and>
    (\<forall>t\<in>set stamps. Add (last stamps) (- retryWindow c) < t \<and> t \<le> last stamps) \<and>
    retryLimit c < int (length stamps) \<and> 0 \<le> sint (retryTimeout c) \<and>
    blockedUntil w \<le> last stamps + sint (retryTimeout c) \<longrightarrow>
      \<not> available (last stamps) (failures c stamps w) \<and>
      (\<forall>later. last stamps + sint (retryTimeout c) < later \<longrightarrow>
         available later (failures c stamps w))) \<and>
   (stamps \<noteq> [] \<and>
    (\<forall>t\<in>set stamps. Add (last stamps) (- retryWindow c) < t \<and> t \<le> last stamps) \<and>
    int (length stamps) = retryLimit c + 1 \<and> errorTimestamps w = [] \<and>
    blockedUntil w < last stamps \<longrightarrow>
      blockedUntil (failures c stamps w) = last stamps + sint (retryTimeout c))"
proof -
  have start: "Add now (- retryWindow c) =
     (if retryWindow c = - 9223372036854775808 then now - 9223372036854775808
      else now - sint (retryWindow c))"
    using Add_minus [of "retryWindow c" now] Add_minus_least [of now] by simp
  show ?thesis
    using Inc_stamps [of c now w] Inc_blockedUntil [of c now w] start
      failures_unavailable [of stamps c w] failures_fresh [of stamps c w]
    unfolding Add_def [of _ "retryTimeout c"]
    by blast
qed

theorem Inc_trims_appends_blocks_witness:
  "[100, 103, 107] \<noteq> ([] :: Time list) \<and>
   list_all (\<lambda>t. Add (last [100, 103, 107]) (- retryWindow demoCallback) < t \<and>
                 t \<le> last [100, 103, 107])
     [100, 103, 107] \<and>
   retryLimit demoCallback < int (length [100, 103, 107 :: Time]) \<and>
   int (length [100, 103, 107 :: Time]) = retryLimit demoCallback + 1 \<and>
   0 \<le> sint (retryTimeout demoCallback) \<and>
   blockedUntil demoWorker \<le> last [100, 103, 107] + sint (retryTimeout demoCallback) \<and>
   errorTimestamps demoWorker = [] \<and> blockedUntil demoWorker < last [100, 103, 107] \<and>
   errorTimestamps (snd (Inc demoCallback 108 (demoWorker\<lparr>errorTimestamps := [90, 98, 99]\<rparr>)))
     = [99, 108] \<and>
   blockedUntil (failures demoCallback [100, 103, 107] demoWorker) = 112 \<and>
   \<not> available 107 (failures demoCallback [100, 103, 107] demoWorker) \<and>
   \<not> available 112 (failures demoCallback [100, 103, 107] demoWorker) \<and>
   available 113 (failures demoCallback [100, 103, 107] demoWorker)"
  using Inc_trims_appends_blocks [of demoCallback 108
      "demoWorker\<lparr>errorTimestamps := [90, 98, 99]\<rparr>" "[100, 103, 107]"]
    Inc_trims_appends_blocks [of demoCallback 0 demoWorker "[100, 103, 107]"]
  by (simp add: demoCallback_def demoWorker_def zeroTime_def available_def Add_def)

lemma Reset_Inc: "Reset (snd (Inc c now w)) = Reset w"
  by (simp add: Reset_def Inc_def Let_def)

lemma Reset_failures: "Reset (failures c stamps w) = Reset w"
  unfolding failures_def
  by (induction stamps arbitrary: w) (simp_all add: Reset_Inc)

text \<open>
  Claim C5.  After \<^verbatim>\<open>Reset\<close> the window of failure stamps is empty and \<^verbatim>\<open>blockedUntil\<close>
  is the zero time; the endpoint, the queue and the stop channel are those the worker
  had.  Whatever run of failures came before makes no difference: \<^verbatim>\<open>Reset\<close> after it
  gives the worker that \<^verbatim>\<open>Reset\<close> gives without it.
\<close>

theorem Reset_clears_after_failures:
  "errorTimestamps (Reset w) = [] \<and>
   blockedUntil (Reset w) = zeroTime \<and>
   point (Reset w) = point w \<and>
   messageQueue (Reset w) = messageQueue w \<and>
   stop (Reset w) = stop w \<and>
   Reset (failures c stamps w) = Reset w"
  by (simp add: Reset_def Reset_failures [unfolded Reset_def])

section \<open>The processing loop\<close>

lemma handler_unfold:
  "handler c env k w =
    (case fst (handlerLoop c env k w) of
       Panicked r \<Rightarrow>
         (fst (handler c env (fst (snd (handlerLoop c env k w)))
                (fst (snd (snd (handlerLoop c env k w))))),
          Suc (fst (snd (handler c env (fst (snd (handlerLoop c env k w)))
                (fst (snd (snd (handlerLoop c env k w))))))),
          fst (snd (snd (handler c env (fst (snd (handlerLoop c env k w)))
                (fst (snd (snd (handlerLoop c env k w))))))),
          snd (snd (snd (handlerLoop c env k w))) @
          sendReturn (fst (snd (snd (handlerLoop c env k w)))) (IError (Some
             \<lparr>Code = 0, Message = ''[PANIC] '' @ r, Critical = True\<rparr>))
          # snd (snd (snd (handler c env (fst (snd (handlerLoop c env k w)))
                (fst (snd (snd (handlerLoop c env k w))))))))
     | e \<Rightarrow> (e, 0, fst (snd (snd (handlerLoop c env k w))),
             snd (snd (snd (handlerLoop c env k w)))))"
  by (subst handler.simps) (simp add: Let_def case_prod_unfold split: loop_exit.splits)

lemma handler_empty:
  "messageQueue w = [] \<Longrightarrow>
   handler c env k w = (if stop w = ClosedChan then Stopped else Waiting, 0, w, [])"
  by (subst handler_unfold) (simp add: handlerLoop_empty)

lemma handler_stop:
  "messageQueue w = data # rest \<Longrightarrow> stop w = ClosedChan \<and> chooseStop env k \<Longrightarrow>
   handler c env k w = (Stopped, 0, w, [])"
  by (subst handler_unfold) (simp add: handlerLoop_stop)

lemma handler_PostPanic:
  assumes "messageQueue w = data # rest" "\<not> (stop w = ClosedChan \<and> chooseStop env k)"
    "handlerRequest c (Post env) (w\<lparr>messageQueue := rest\<rparr>) data = PostPanic r"
  shows "handler c env k w =
     (fst (handler c env (Suc k) (w\<lparr>messageQueue := rest\<rparr>)),
      Suc (fst (snd (handler c env (Suc k) (w\<lparr>messageQueue := rest\<rparr>)))),
      fst (snd (snd (handler c env (Suc k) (w\<lparr>messageQueue := rest\<rparr>)))),
      sendReturn (w\<lparr>messageQueue := rest\<rparr>) (IError (Some
        \<lparr>Code = 0, Message = ''[PANIC] '' @ r, Critical = True\<rparr>))
      # snd (snd (snd (handler c env (Suc k) (w\<lparr>messageQueue := rest\<rparr>)))))"
  by (subst handler_unfold) (simp add: handlerLoop_PostPanic [OF assms])

lemma handler_PostOk:
  assumes "messageQueue w = data # rest" "\<not> (stop w = ClosedChan \<and> chooseStop env k)"
    "handlerRequest c (Post env) (w\<lparr>messageQueue := rest\<rparr>) data = PostOk res"
    "w1 = Reset (w\<lparr>messageQueue := rest\<rparr>)"
  shows "handler c env k w =
     (fst (handler c env (Suc k) w1),
      fst (snd (handler c env (Suc k) w1)),
      fst (snd (snd (handler c env (Suc k) w1))),
      sendReturn w1 (IResponse (Some \<lparr>Data = res\<rparr>))
      # snd (snd (snd (handler c env (Suc k) w1))))"
proof -
  note L = handlerLoop_PostOk [OF assms]
  show ?thesis
    by (cases "fst (handlerLoop c env (Suc k) w1)")
       (simp_all add: handler_unfold [of c env k w] handler_unfold [of c env "Suc k" w1] L)
qed

lemma handler_PostErr:
  assumes "messageQueue w = data # rest" "\<not> (stop w = ClosedChan \<and> chooseStop env k)"
    "handlerRequest c (Post env) (w\<lparr>messageQueue := rest\<rparr>) data = PostErr err"
    "w1 = snd (Inc c (Now env k) (w\<lparr>messageQueue := rest\<rparr>))"
  shows "handler c env k w =
     (fst (handler c env (Suc k) w1),
      fst (snd (handler c env (Suc k) w1)),
      fst (snd (snd (handler c env (Suc k) w1))),
      sendReturn w1 (IError (Some
        \<lparr>Code = 0, Message = ''[ERROR] '' @ err, Critical = True\<rparr>))
      # snd (snd (snd (handler c env (Suc k) w1))))"
proof -
  note L = handlerLoop_PostErr [OF assms]
  show ?thesis
    by (cases "fst (handlerLoop c env (Suc k) w1)")
       (simp_all add: handler_unfold [of c env k w] handler_unfold [of c env "Suc k" w1] L)
qed


lemma Reset_fixed:
  "point (Reset w) = point w \<and> messageQueue (Reset w) = messageQueue w \<and>
   stop (Reset w) = stop w"
  by (simp add: Reset_def)

lemma handlerRequest_point:
  "point w' = point w \<Longrightarrow> handlerRequest c P w' data = handlerRequest c P w data"
  by (simp add: handlerRequest_def)

lemma handler_envelopes:
  "messageQueue w = q \<Longrightarrow>
   \<forall>d\<in>set (snd (snd (snd (handler c env k w)))).
     Point d = point w \<and>
     (if Success d then Response d \<noteq> None \<and> Error d = None
      else Response d = None \<and> Error d \<noteq> None)"
proof (induction q arbitrary: w k)
  case Nil
  then show ?case by (simp add: handler_empty)
next
  case (Cons data rest)
  let ?w = "w\<lparr>messageQueue := rest\<rparr>"
  note q = Cons.prems
  show ?case
  proof (cases "stop w = ClosedChan \<and> chooseStop env k")
    case True
    then show ?thesis by (simp add: handler_stop [OF q])
  next
    case False
    show ?thesis
    proof (cases "handlerRequest c (Post env) ?w data")
      case (PostOk res)
      have "messageQueue (Reset ?w) = rest" by (simp add: Reset_fixed)
      from Cons.IH [OF this, of "Suc k"] show ?thesis
        by (simp add: handler_PostOk [OF q False PostOk refl] Reset_fixed sendReturn_def)
    next
      case (PostErr err)
      have "messageQueue (snd (Inc c (Now env k) ?w)) = rest" by (simp add: Inc_fixed)
      from Cons.IH [OF this, of "Suc k"] show ?thesis
        by (simp add: handler_PostErr [OF q False PostErr refl] Inc_fixed sendReturn_def)
    next
      case (PostPanic r)
      have "messageQueue ?w = rest" by simp
      from Cons.IH [OF this, of "Suc k"] show ?thesis
        by (simp add: handler_PostPanic [OF q False PostPanic] sendReturn_def)
    qed
  qed
qed

lemma handler_drains:
  "messageQueue w = q \<Longrightarrow> stop w \<noteq> ClosedChan \<Longrightarrow>
   fst (handler c env k w) = Waiting \<and>
   messageQueue (fst (snd (snd (handler c env k w)))) = [] \<and>
   snd (snd (snd (handler c env k w))) =
     map (\<lambda>data. envelopeOf (point w) (handlerRequest c (Post env) w data)) q"
proof (induction q arbitrary: w k)
  case Nil
  then show ?case by (simp add: handler_empty)
next
  case (Cons data rest)
  let ?w = "w\<lparr>messageQueue := rest\<rparr>"
  note q = Cons.prems(1)
  have nostop: "\<not> (stop w = ClosedChan \<and> chooseStop env k)"
    using Cons.prems(2) by simp
  have same: "handlerRequest c (Post env) ?w data = handlerRequest c (Post env) w data"
    by (rule handlerRequest_point) simp
  show ?case
  proof (cases "handlerRequest c (Post env) ?w data")
    case (PostOk res)
    let ?w1 = "Reset ?w"
    have "messageQueue ?w1 = rest" "stop ?w1 \<noteq> ClosedChan"
      using Cons.prems(2) by (simp_all add: Reset_fixed)
    from Cons.IH [OF this, of "Suc k"] PostOk same show ?thesis
      by (simp add: handler_PostOk [OF q nostop PostOk refl] Reset_fixed sendReturn_def
          envelopeOf_def handlerRequest_point [of ?w1 w])
  next
    case (PostErr err)
    let ?w1 = "snd (Inc c (Now env k) ?w)"
    have "messageQueue ?w1 = rest" "stop ?w1 \<noteq> ClosedChan"
      using Cons.prems(2) by (simp_all add: Inc_fixed)
    from Cons.IH [OF this, of "Suc k"] PostErr same show ?thesis
      by (simp add: handler_PostErr [OF q nostop PostErr refl] Inc_fixed sendReturn_def
          envelopeOf_def handlerRequest_point [of ?w1 w])
  next
    case (PostPanic r)
    have "messageQueue ?w = rest" "stop ?w \<noteq> ClosedChan"
      using Cons.prems(2) by simp_all
    from Cons.IH [OF this, of "Suc k"] PostPanic same show ?thesis
      by (simp add: handler_PostPanic [OF q nostop PostPanic] sendReturn_def
          envelopeOf_def handlerRequest_point [of ?w w])
  qed
qed



text \<open>
  Claim C4.  When the transport panics on the payload at the head of the queue (and the
  stop channel is not closed, as for every worker of \<^verbatim>\<open>NewWorker\<close>), the loop leaves with
  that panic and with the rest of the queue as it was; the deferred function sends an
  envelope with \<open>Success = False\<close>, \<open>Critical = True\<close> and the message \<^verbatim>\<open>[PANIC]\<close> followed
  by the panic value, and starts one more instance of \<^verbatim>\<open>handler\<close>; that instance sends
  one envelope for each payload still queued, in order, and ends waiting on an empty
  queue.
\<close>

theorem handler_restarts_after_panic:
  assumes "messageQueue w = data # rest" and "stop w \<noteq> ClosedChan"
    and "handlerRequest c (Post env) w data = PostPanic r"
  shows "handlerLoop c env k w = (Panicked r, Suc k, w\<lparr>messageQueue := rest\<rparr>, []) \<and>
    handler c env k w =
      (Waiting, Suc (fst (snd (handler c env (Suc k) (w\<lparr>messageQueue := rest\<rparr>)))),
       fst (snd (snd (handler c env (Suc k) (w\<lparr>messageQueue := rest\<rparr>)))),
       \<lparr>Point = point w, Success = False, Response = None,
        Error = Some \<lparr>Code = 0, Message = ''[PANIC] '' @ r, Critical = True\<rparr>\<rparr>
       # snd (snd (snd (handler c env (Suc k) (w\<lparr>messageQueue := rest\<rparr>))))) \<and>
    snd (snd (snd (handler c env (Suc k) (w\<lparr>messageQueue := rest\<rparr>)))) =
      map (\<lambda>data. envelopeOf (point w) (handlerRequest c (Post env) w data)) rest \<and>
    messageQueue (fst (snd (snd (handler c env k w)))) = []"
proof -
  let ?w = "w\<lparr>messageQueue := rest\<rparr>"
  have nostop: "\<not> (stop w = ClosedChan \<and> chooseStop env k)"
    using assms(2) by simp
  have "handlerRequest c (Post env) ?w data = handlerRequest c (Post env) w data"
    by (rule handlerRequest_point) simp
  with assms(3) have panic: "handlerRequest c (Post env) ?w data = PostPanic r"
    by simp
  have same: "handlerRequest c (Post env) ?w = handlerRequest c (Post env) w"
    by (rule ext) (rule handlerRequest_point, simp)
  have rest: "fst (handler c env (Suc k) ?w) = Waiting \<and>
     messageQueue (fst (snd (snd (handler c env (Suc k) ?w)))) = [] \<and>
     snd (snd (snd (handler c env (Suc k) ?w))) =
       map (\<lambda>data. envelopeOf (point ?w) (handlerRequest c (Post env) ?w data)) rest"
    using assms(2) by (intro handler_drains) simp_all
  show ?thesis
    using rest
    by (simp add: handlerLoop_PostPanic [OF assms(1) nostop panic]
        handler_PostPanic [OF assms(1) nostop panic] sendReturn_def same)
qed

theorem handler_restarts_after_panic_witness:
  "messageQueue demoQueued = [1] # [[2], [3]] \<and>
   stop demoQueued \<noteq> ClosedChan \<and>
   handlerRequest demoCallback (Post demoWorld) demoQueued [1] = PostPanic ''boom'' \<and>
   snd (snd (snd (handler demoCallback demoWorld 0 demoQueued))) =
     [\<lparr>Point = ''a'', Success = False, Response = None,
       Error = Some \<lparr>Code = 0, Message = ''[PANIC] boom'', Critical = True\<rparr>\<rparr>,
      \<lparr>Point = ''a'', Success = False, Response = None,
       Error = Some \<lparr>Code = 0, Message = ''[ERROR] refused'', Critical = True\<rparr>\<rparr>,
      \<lparr>Point = ''a'', Success = True, Response = Some \<lparr>Data = [3]\<rparr>, Error = None\<rparr>]"
  using handler_restarts_after_panic [of demoQueued "[1]" "[[2], [3]]" demoCallback demoWorld
      "''boom''" 0]
  by (simp add: demoQueued_def demoWorker_def demoCallback_def demoWorld_def handlerRequest_def
      REST_def envelopeOf_def)


text \<open>
  Claim C8.  Every envelope a worker sends carries the worker's endpoint and has
  either \<open>Success\<close> with a response and no error, or no \<open>Success\<close> with an error and no
  response: for all the envelopes of a run of \<^verbatim>\<open>handler\<close>, and for \<^verbatim>\<open>sendReturn\<close> on each
  kind of result it is given (a response, an error, anything else).
\<close>

theorem worker_envelopes_one_of_two:
  "(\<forall>d\<in>set (snd (snd (snd (handler c env k w)))).
      Point d = point w \<and>
      (if Success d then Response d \<noteq> None \<and> Error d = None
       else Response d = None \<and> Error d \<noteq> None)) \<and>
   sendReturn w (IResponse (Some r)) =
     \<lparr>Point = point w, Success = True, Response = Some r, Error = None\<rparr> \<and>
   sendReturn w (IError (Some e)) =
     \<lparr>Point = point w, Success = False, Response = None, Error = Some e\<rparr> \<and>
   Point (sendReturn w IOther) = point w \<and> \<not> Success (sendReturn w IOther) \<and>
   Response (sendReturn w IOther) = None \<and> Error (sendReturn w IOther) \<noteq> None"
  using handler_envelopes [of w "messageQueue w" c env k]
  by (simp add: sendReturn_def)

lemma demo_run:
  "handler demoCallback demoWorld 0 demoQueued =
    (Waiting, 1,
     \<lparr>point = ''a'', messageQueue = [], errorTimestamps = [], blockedUntil = 0,
      stop = NilChan\<rparr>,
     [\<lparr>Point = ''a'', Success = False, Response = None,
       Error = Some \<lparr>Code = 0, Message = ''[PANIC] boom'', Critical = True\<rparr>\<rparr>,
      \<lparr>Point = ''a'', Success = False, Response = None,
       Error = Some \<lparr>Code = 0, Message = ''[ERROR] refused'', Critical = True\<rparr>\<rparr>,
      \<lparr>Point = ''a'', Success = True, Response = Some \<lparr>Data = [3]\<rparr>, Error = None\<rparr>])"
  by code_simp

theorem worker_envelopes_one_of_two_witness:
  "length (snd (snd (snd (handler demoCallback demoWorld 0 demoQueued)))) = 3 \<and>
   list_all (\<lambda>d. Point d = point demoQueued \<and>
      (if Success d then Response d \<noteq> None \<and> Error d = None
       else Response d = None \<and> Error d \<noteq> None))
     (snd (snd (snd (handler demoCallback demoWorld 0 demoQueued))))"
proof -
  have "length (snd (snd (snd (handler demoCallback demoWorld 0 demoQueued)))) = 3"
    by (simp add: demo_run)
  then show ?thesis
    using worker_envelopes_one_of_two [of demoCallback demoWorld 0 demoQueued, THEN conjunct1]
    by (simp add: list_all_iff)
qed



section \<open>The router\<close>

lemma sint_of_nat_small:
  assumes "int i < 2 ^ 31"
  shows "sint (of_nat i :: 32 word) = int i"
proof -
  have "sint (of_nat i :: 32 word) = sint (of_int (int i) :: 32 word)"
    by (simp only: of_int_of_nat_eq)
  also have "\<dots> = signed_take_bit (LENGTH(32) - 1) (int i)"
    by (rule sint_sbintrunc')
  also have "\<dots> = int i"
    using assms by (simp add: signed_take_bit_int_eq_self)
  finally show ?thesis .
qed

lemma sint_cursor_add:
  fixes cur :: "32 word"
  assumes "0 \<le> sint cur" "sint cur + int i < 2 ^ 31"
  shows "sint (cur + of_nat i) = sint cur + int i"
proof -
  have i: "int i < 2 ^ 31" using assms by linarith
  have "sint (cur + of_nat i) = signed_take_bit (LENGTH(32) - 1) (sint cur + sint (of_nat i :: 32 word))"
    by (rule sint_word_add)
  also have "\<dots> = signed_take_bit 31 (sint cur + int i)"
    by (simp add: sint_of_nat_small [OF i])
  also have "\<dots> = sint cur + int i"
    using assms by (simp add: signed_take_bit_int_eq_self)
  finally show ?thesis .
qed

lemma smod_nonneg:
  "0 \<le> a \<Longrightarrow> 0 < b \<Longrightarrow> (a::int) smod b = a mod b"
  by (simp add: smod_int_alt_def sgn_if)

lemma go_index:
  fixes cur :: "32 word"
  assumes "0 \<le> sint cur" "sint cur + int i < 2 ^ 31" "0 < n"
  shows "sint (cur + of_nat i + 1 - 1) smod int n = int ((nat (sint cur) + i) mod n)"
proof -
  have "sint (cur + of_nat i + 1 - 1) = sint cur + int i"
    using sint_cursor_add [OF assms(1,2)] by simp
  moreover have "(sint cur + int i) smod int n = (sint cur + int i) mod int n"
    using assms by (intro smod_nonneg) simp_all
  moreover have "sint cur + int i = int (nat (sint cur) + i)"
    using assms(1) by simp
  ultimately show ?thesis
    by (simp only: zmod_int)
qed


lemma roundRobinFrom_select:
  assumes s: "0 \<le> sint cur" and nowrap: "sint cur + int (length (endPoints c)) \<le> 2 ^ 31"
    and cursor: "roundRobinIndex c = cur + of_nat i" and i: "i \<le> length (endPoints c)"
  shows "roundRobinFrom i now c data =
    (case find (\<lambda>a. available (now a)
                  (endPoints c ! ((nat (sint cur) + a) mod length (endPoints c))))
            [i..<length (endPoints c)] of
       None \<Rightarrow>
         (Returns (Some errAllBlocked),
          c\<lparr>roundRobinIndex := cur + of_nat (length (endPoints c))\<rparr>)
     | Some a \<Rightarrow>
         sendTo ((nat (sint cur) + a) mod length (endPoints c)) data
           (c\<lparr>roundRobinIndex := cur + of_nat (Suc a)\<rparr>))"
  using cursor i nowrap
proof (induction "length (endPoints c) - i" arbitrary: i c)
  case 0
  then have "i = length (endPoints c)" by simp
  with "0.prems"(1) have "c\<lparr>roundRobinIndex := cur + of_nat (length (endPoints c))\<rparr> = c"
    by simp
  with \<open>i = length (endPoints c)\<close> show ?case
    by (subst roundRobinFrom.simps) simp
next
  case (Suc d)
  let ?n = "length (endPoints c)"
  let ?c1 = "c\<lparr>roundRobinIndex := roundRobinIndex c + 1\<rparr>"
  let ?idx = "(nat (sint cur) + i) mod ?n"
  from Suc.hyps(2) have lt: "i < ?n" by simp
  then have small: "sint cur + int i < 2 ^ 31" using Suc.prems(3) by linarith
  have pos: "0 < ?n" using lt by linarith
  have idx: "sint (roundRobinIndex c) smod int ?n = int ?idx"
    using go_index [OF s small pos] by (simp add: Suc.prems(1))
  have "?idx < ?n" using pos by (rule mod_less_divisor)
  then have range: "\<not> (int ?idx < 0 \<or> int ?n \<le> int ?idx)"
    by linarith
  have upt: "[i..<?n] = i # [Suc i..<?n]"
    using lt by (simp add: upt_conv_Cons)
  have step: "roundRobinFrom i now c data =
      (if \<not> available (now i) (endPoints c ! ?idx) then roundRobinFrom (Suc i) now ?c1 data
       else sendTo ?idx data ?c1)"
    using lt range by (subst roundRobinFrom.simps) (simp add: Let_def idx)
  have c1: "?c1 = c\<lparr>roundRobinIndex := cur + of_nat (Suc i)\<rparr>"
    by (simp add: Suc.prems(1))
  show ?case
  proof (cases "available (now i) (endPoints c ! ?idx)")
    case True
    then show ?thesis by (simp add: step upt c1)
  next
    case False
    have "d = length (endPoints ?c1) - Suc i" using Suc.hyps(2) by simp
    moreover have "roundRobinIndex ?c1 = cur + of_nat (Suc i)" by (simp add: Suc.prems(1))
    moreover have "Suc i \<le> length (endPoints ?c1)" using lt by simp
    moreover have "sint cur + int (length (endPoints ?c1)) \<le> 2 ^ 31" using Suc.prems(3) by simp
    ultimately have "roundRobinFrom (Suc i) now ?c1 data =
      (case find (\<lambda>a. available (now a)
                  (endPoints ?c1 ! ((nat (sint cur) + a) mod length (endPoints ?c1))))
            [Suc i..<length (endPoints ?c1)] of
       None \<Rightarrow>
         (Returns (Some errAllBlocked),
          ?c1\<lparr>roundRobinIndex := cur + of_nat (length (endPoints ?c1))\<rparr>)
     | Some a \<Rightarrow>
         sendTo ((nat (sint cur) + a) mod length (endPoints ?c1)) data
           (?c1\<lparr>roundRobinIndex := cur + of_nat (Suc a)\<rparr>))"
      by (rule Suc.hyps(1))
    with False show ?thesis by (simp add: step upt split: option.split)
  qed
qed


lemma delivered_Nil: "delivered s n [] i = []"
  by (simp add: delivered_def)

lemma delivered_Cons:
  "delivered s n (data # payloads) i =
     (if s mod n = i then data # delivered (Suc s) n payloads i
      else delivered (Suc s) n payloads i)"
  by (simp add: delivered_def)

lemma sendTo_Emit_shape:
  "(case sendTo index data c of (Returns err, c') \<Rightarrow> (Returns None, c') | (e, c') \<Rightarrow> (e, c'))
     = sendTo index data c"
  by (simp add: sendTo_def Let_def)

lemma Emit_first_available:
  assumes mode: "deliveryMode c = RoundRobin" and s: "0 \<le> sint (roundRobinIndex c)"
    and ne: "endPoints c \<noteq> []"
    and av: "available (now 0)
      (endPoints c ! (nat (sint (roundRobinIndex c)) mod length (endPoints c)))"
  shows "Emit now c data =
    sendTo (nat (sint (roundRobinIndex c)) mod length (endPoints c)) data
      (c\<lparr>roundRobinIndex := roundRobinIndex c + 1\<rparr>)"
proof -
  let ?n = "length (endPoints c)"
  let ?idx = "nat (sint (roundRobinIndex c)) mod ?n"
  have pos: "0 < ?n" using ne by simp
  have "sint (roundRobinIndex c) + int 0 < 2 ^ 31"
    using sint_lt [of "roundRobinIndex c"] by simp
  from go_index [OF s this pos]
  have idx: "sint (roundRobinIndex c) smod int ?n = int ?idx" by simp
  have "?idx < ?n" using pos by (rule mod_less_divisor)
  then have range: "\<not> (int ?idx < 0 \<or> int ?n \<le> int ?idx)" by linarith
  have "roundRobinFrom 0 now c data =
      sendTo ?idx data (c\<lparr>roundRobinIndex := roundRobinIndex c + 1\<rparr>)"
    using pos range av by (subst roundRobinFrom.simps) (simp add: Let_def idx)
  then show ?thesis
    using mode by (simp add: Emit_def roundRobin_def sendTo_Emit_shape)
qed


lemma sint_succ:
  fixes cur :: "32 word"
  assumes "0 \<le> sint cur" "sint cur + 1 < 2 ^ 31"
  shows "sint (cur + 1) = sint cur + 1"
  using sint_cursor_add [OF assms(1), of 1] assms(2) by simp

lemma emits_in_turn:
  assumes mode: "deliveryMode c = RoundRobin"
    and s: "0 \<le> sint (roundRobinIndex c)"
    and nowrap: "sint (roundRobinIndex c) + int (length payloads) < 2 ^ 31"
    and ne: "endPoints c \<noteq> []"
    and avail: "\<forall>j<length payloads. \<forall>w\<in>set (endPoints c). available (now (k + j) 0) w"
    and room: "\<forall>w\<in>set (endPoints c). length (messageQueue w) + length payloads \<le> queueCap"
  shows "emits now k c payloads =
    (Returns None,
     c\<lparr>roundRobinIndex := roundRobinIndex c + of_nat (length payloads),
       endPoints := map (\<lambda>i. (endPoints c ! i)
           \<lparr>messageQueue := messageQueue (endPoints c ! i) @
              delivered (nat (sint (roundRobinIndex c))) (length (endPoints c)) payloads i\<rparr>)
         [0..<length (endPoints c)]\<rparr>)"
  using assms
proof (induction payloads arbitrary: c k)
  case Nil
  have "map (\<lambda>i. endPoints c ! i) [0..<length (endPoints c)] = endPoints c"
    by (rule map_nth)
  then show ?case by (simp add: delivered_Nil)
next
  case (Cons data payloads)
  let ?ws = "endPoints c" and ?cur = "roundRobinIndex c"
  let ?n = "length ?ws" and ?s = "nat (sint ?cur)"
  let ?idx = "?s mod ?n"
  let ?w' = "(?ws ! ?idx)\<lparr>messageQueue := messageQueue (?ws ! ?idx) @ [data]\<rparr>"
  let ?c1 = "c\<lparr>roundRobinIndex := ?cur + 1, endPoints := ?ws[?idx := ?w']\<rparr>"
  note mode = Cons.prems(1) and s = Cons.prems(2) and nowrap = Cons.prems(3)
    and ne = Cons.prems(4) and avail = Cons.prems(5) and room = Cons.prems(6)
  have pos: "0 < ?n" using ne by simp
  have idx: "?idx < ?n" using pos by (rule mod_less_divisor)
  then have mem: "?ws ! ?idx \<in> set ?ws" by simp
  have av0: "available (now k 0) (?ws ! ?idx)"
    using avail mem by force
  have roomy: "length (messageQueue (?ws ! ?idx)) < queueCap"
    using room mem by force
  have first: "Emit (now k) c data = (Returns None, ?c1)"
    using roomy
    by (simp add: Emit_first_available [of c "now k", OF mode s ne av0] sendTo_def Let_def)
  have succ: "sint (?cur + 1) = sint ?cur + 1"
    using nowrap by (intro sint_succ [OF s]) simp
  have s1: "nat (sint (?cur + 1)) = Suc ?s"
    using s by (simp add: succ nat_add_distrib)
  have sub: "set (?ws[?idx := ?w']) \<subseteq> insert ?w' (set ?ws)"
    by (rule set_update_subset_insert)
  have "emits now (Suc k) ?c1 payloads =
    (Returns None,
     ?c1\<lparr>roundRobinIndex := roundRobinIndex ?c1 + of_nat (length payloads),
       endPoints := map (\<lambda>i. (endPoints ?c1 ! i)
           \<lparr>messageQueue := messageQueue (endPoints ?c1 ! i) @
              delivered (nat (sint (roundRobinIndex ?c1))) (length (endPoints ?c1)) payloads i\<rparr>)
         [0..<length (endPoints ?c1)]\<rparr>)"
  proof (rule Cons.IH)
    show "deliveryMode ?c1 = RoundRobin" using mode by simp
    show "0 \<le> sint (roundRobinIndex ?c1)" using s by (simp add: succ)
    show "sint (roundRobinIndex ?c1) + int (length payloads) < 2 ^ 31"
      using nowrap by (simp add: succ)
    show "endPoints ?c1 \<noteq> []" using ne by simp
    show "\<forall>j<length payloads. \<forall>w\<in>set (endPoints ?c1). available (now (Suc k + j) 0) w"
    proof (intro allI impI ballI)
      fix j w
      assume j: "j < length payloads" and w: "w \<in> set (endPoints ?c1)"
      from j have "Suc j < length (data # payloads)" by simp
      with avail have *: "\<forall>w\<in>set ?ws. available (now (k + Suc j) 0) w" by blast
      from w sub have "w = ?w' \<or> w \<in> set ?ws" by auto
      then show "available (now (Suc k + j) 0) w"
        using * mem by (auto simp: available_def)
    qed
    show "\<forall>w\<in>set (endPoints ?c1). length (messageQueue w) + length payloads \<le> queueCap"
    proof
      fix w
      assume w: "w \<in> set (endPoints ?c1)"
      from w sub have "w = ?w' \<or> w \<in> set ?ws" by auto
      then show "length (messageQueue w) + length payloads \<le> queueCap"
        using room mem by auto
    qed
  qed
  moreover have "map (\<lambda>i. (endPoints ?c1 ! i)
           \<lparr>messageQueue := messageQueue (endPoints ?c1 ! i) @
              delivered (nat (sint (roundRobinIndex ?c1))) (length (endPoints ?c1)) payloads i\<rparr>)
         [0..<length (endPoints ?c1)] =
       map (\<lambda>i. (?ws ! i)
           \<lparr>messageQueue := messageQueue (?ws ! i) @ delivered ?s ?n (data # payloads) i\<rparr>)
         [0..<?n]"
  proof -
    have "\<And>i. i < ?n \<Longrightarrow>
        (?ws[?idx := ?w'] ! i)\<lparr>messageQueue := messageQueue (?ws[?idx := ?w'] ! i) @
              delivered (Suc ?s) ?n payloads i\<rparr> =
        (?ws ! i)\<lparr>messageQueue := messageQueue (?ws ! i) @ delivered ?s ?n (data # payloads) i\<rparr>"
      by (simp add: delivered_Cons nth_list_update)
    then show ?thesis
      by (simp add: s1 del: upt.simps)
  qed
  ultimately show ?case
    by (simp add: first add.assoc add.commute del: upt.simps)
qed


lemma delivered_snoc:
  "delivered s n (payloads @ [data]) i =
     delivered s n payloads i @ (if (s + length payloads) mod n = i then [data] else [])"
  by (simp add: delivered_def enumerate_append_eq)


text \<open>
  Claim C3.  With the cursor at \<open>s\<close>, not negative and not reaching \<open>2^31\<close> during the
  calls, and \<open>n\<close> workers:
  \<^item> when every worker is available at each call and has room in its queue, a run of
    calls of \<^verbatim>\<open>Emit\<close> in round-robin mode all return nil, and the payload of the call
    that follows \<open>j\<close> calls is appended to the queue of the worker at index
    \<open>(s + j) mod n\<close> (so the call after \<open>N\<close> others goes to \<open>(s + N) mod n\<close>); the cursor
    advances by one for each call;
  \<^item> one call of \<^verbatim>\<open>roundRobin\<close> tries at most \<open>n\<close> workers, the \<open>a\<close>-th try at index
    \<open>(s + a) mod n\<close>, and sends to the first tried worker whose \<open>blockedUntil\<close> is
    strictly before the clock of that try; when there is none it returns the error.
\<close>

theorem roundRobin_in_turn:
  "(deliveryMode c = RoundRobin \<and> endPoints c \<noteq> [] \<and>
    0 \<le> sint (roundRobinIndex c) \<and>
    sint (roundRobinIndex c) + int (length payloads) < 2 ^ 31 \<and>
    (\<forall>j<length payloads. \<forall>w\<in>set (endPoints c). blockedUntil w < now (k + j) 0) \<and>
    (\<forall>w\<in>set (endPoints c). length (messageQueue w) + length payloads \<le> queueCap) \<longrightarrow>
    emits now k c payloads =
      (Returns None,
       c\<lparr>roundRobinIndex := roundRobinIndex c + of_nat (length payloads),
         endPoints := map (\<lambda>i. (endPoints c ! i)
             \<lparr>messageQueue := messageQueue (endPoints c ! i) @
                delivered (nat (sint (roundRobinIndex c))) (length (endPoints c)) payloads i\<rparr>)
           [0..<length (endPoints c)]\<rparr>)) \<and>
   delivered s n (payloads @ [data]) i =
     delivered s n payloads i @ (if (s + length payloads) mod n = i then [data] else []) \<and>
   (0 \<le> sint (roundRobinIndex c) \<and>
    sint (roundRobinIndex c) + int (length (endPoints c)) \<le> 2 ^ 31 \<longrightarrow>
    roundRobin clock c data =
      (case find (\<lambda>a. blockedUntil (endPoints c !
                     ((nat (sint (roundRobinIndex c)) + a) mod length (endPoints c))) < clock a)
              [0..<length (endPoints c)] of
         None \<Rightarrow>
           (Returns (Some errAllBlocked),
            c\<lparr>roundRobinIndex := roundRobinIndex c + of_nat (length (endPoints c))\<rparr>)
       | Some a \<Rightarrow>
           sendTo ((nat (sint (roundRobinIndex c)) + a) mod length (endPoints c)) data
             (c\<lparr>roundRobinIndex := roundRobinIndex c + of_nat (Suc a)\<rparr>)))"
proof (intro conjI impI)
  assume "deliveryMode c = RoundRobin \<and> endPoints c \<noteq> [] \<and>
    0 \<le> sint (roundRobinIndex c) \<and>
    sint (roundRobinIndex c) + int (length payloads) < 2 ^ 31 \<and>
    (\<forall>j<length payloads. \<forall>w\<in>set (endPoints c). blockedUntil w < now (k + j) 0) \<and>
    (\<forall>w\<in>set (endPoints c). length (messageQueue w) + length payloads \<le> queueCap)"
  then show "emits now k c payloads =
      (Returns None,
       c\<lparr>roundRobinIndex := roundRobinIndex c + of_nat (length payloads),
         endPoints := map (\<lambda>i. (endPoints c ! i)
             \<lparr>messageQueue := messageQueue (endPoints c ! i) @
                delivered (nat (sint (roundRobinIndex c))) (length (endPoints c)) payloads i\<rparr>)
           [0..<length (endPoints c)]\<rparr>)"
    by (intro emits_in_turn) (simp_all add: available_def)
next
  show "delivered s n (payloads @ [data]) i =
     delivered s n payloads i @ (if (s + length payloads) mod n = i then [data] else [])"
    by (rule delivered_snoc)
next
  assume "0 \<le> sint (roundRobinIndex c) \<and>
    sint (roundRobinIndex c) + int (length (endPoints c)) \<le> 2 ^ 31"
  then show "roundRobin clock c data =
      (case find (\<lambda>a. blockedUntil (endPoints c !
                     ((nat (sint (roundRobinIndex c)) + a) mod length (endPoints c))) < clock a)
              [0..<length (endPoints c)] of
         None \<Rightarrow>
           (Returns (Some errAllBlocked),
            c\<lparr>roundRobinIndex := roundRobinIndex c + of_nat (length (endPoints c))\<rparr>)
       | Some a \<Rightarrow>
           sendTo ((nat (sint (roundRobinIndex c)) + a) mod length (endPoints c)) data
             (c\<lparr>roundRobinIndex := roundRobinIndex c + of_nat (Suc a)\<rparr>))"
    using roundRobinFrom_select [of "roundRobinIndex c" c 0 clock data]
    by (simp add: roundRobin_def available_def)
qed

theorem roundRobin_in_turn_witness:
  "deliveryMode demoThree = RoundRobin \<and> endPoints demoThree \<noteq> [] \<and>
   0 \<le> sint (roundRobinIndex demoThree) \<and>
   sint (roundRobinIndex demoThree) + int (length [[10], [11], [12], [13 :: 8 word]]) < 2 ^ 31 \<and>
   list_all (\<lambda>w. blockedUntil w < 80) (endPoints demoThree) \<and>
   list_all (\<lambda>w. length (messageQueue w) + 4 \<le> queueCap) (endPoints demoThree) \<and>
   sint (roundRobinIndex demoThree) + int (length (endPoints demoThree)) \<le> 2 ^ 31 \<and>
   emits (\<lambda>j i. 80) 0 demoThree [[10], [11], [12], [13]] =
     (Returns None,
      demoThree\<lparr>roundRobinIndex := 5,
        endPoints :=
          [\<lparr>point = ''a'', messageQueue = [[12]], errorTimestamps = [],
            blockedUntil = zeroTime, stop = NilChan\<rparr>,
           \<lparr>point = ''b'', messageQueue = [[10], [13]], errorTimestamps = [],
            blockedUntil = 70, stop = NilChan\<rparr>,
           \<lparr>point = ''c'', messageQueue = [[11]], errorTimestamps = [],
            blockedUntil = zeroTime, stop = NilChan\<rparr>]\<rparr>) \<and>
   roundRobin (\<lambda>i. 50) demoThree [10] =
     (Returns None,
      demoThree\<lparr>roundRobinIndex := 3,
        endPoints :=
          [\<lparr>point = ''a'', messageQueue = [], errorTimestamps = [],
            blockedUntil = zeroTime, stop = NilChan\<rparr>,
           \<lparr>point = ''b'', messageQueue = [], errorTimestamps = [],
            blockedUntil = 70, stop = NilChan\<rparr>,
           \<lparr>point = ''c'', messageQueue = [[10]], errorTimestamps = [],
            blockedUntil = zeroTime, stop = NilChan\<rparr>]\<rparr>)"
  using roundRobin_in_turn [where c = demoThree and payloads = "[[10], [11], [12], [13]]"
      and now = "\<lambda>j i. 80" and k = 0 and clock = "\<lambda>i. 50" and data = "[10]"
      and s = 0 and n = 1 and i = 0]
  by (simp add: demoThree_def zeroTime_def queueCap_def RoundRobin_def delivered_def
      sendTo_def Let_def)



text \<open>
  Claim C10.  The claim: for every value of the 32-bit cursor, negative ones after the
  wrap included, the index \<^verbatim>\<open>int(cursor.Add(1)-1) % len(endPoints)\<close> lies in
  \<open>[0, len)\<close>.  On the code: with three workers and the cursor at \<open>2^31 - 1\<close>, a first
  \<^verbatim>\<open>Emit\<close> sends to index 1 and leaves the cursor at \<open>- 2^31\<close>; in the next the
  remainder is \<open>- 2\<close> and the lookup panics.
\<close>

theorem roundRobin_index_negative:
  "sint (2147483647 + 1 :: 32 word) = - 2147483648 \<and>
   sint (2147483647 + 1 :: 32 word) smod 3 = - 2 \<and>
   emits (\<lambda>j i. 80) 0 (demoThree\<lparr>roundRobinIndex := 2147483647\<rparr>) [[10], [11]] =
     (Panics ''index out of range'',
      demoThree\<lparr>roundRobinIndex := 2147483649,
        endPoints := (endPoints demoThree)
          [1 := (endPoints demoThree ! 1)\<lparr>messageQueue := [[10]]\<rparr>]\<rparr>)"
  by code_simp

section \<open>What \<^verbatim>\<open>Emit\<close> returns\<close>

lemma Emit_returns_nil: "fst (Emit now c data) \<noteq> Returns (Some err)"
  by (simp add: Emit_def split: prod.splits exit.splits)


lemma sendTo_not_error: "fst (sendTo index data c) \<noteq> Returns (Some err)"
  by (simp add: sendTo_def Let_def)

lemma roundRobin_error_iff:
  assumes "0 \<le> sint (roundRobinIndex c)"
    and "sint (roundRobinIndex c) + int (length (endPoints c)) \<le> 2 ^ 31"
  shows "(fst (roundRobin clock c data) = Returns (Some errAllBlocked)) =
    (\<forall>a<length (endPoints c).
       \<not> available (clock a)
          (endPoints c ! ((nat (sint (roundRobinIndex c)) + a) mod length (endPoints c))))"
proof -
  let ?P = "\<lambda>a. available (clock a)
          (endPoints c ! ((nat (sint (roundRobinIndex c)) + a) mod length (endPoints c)))"
  have sel: "roundRobin clock c data =
    (case find ?P [0..<length (endPoints c)] of
       None \<Rightarrow>
         (Returns (Some errAllBlocked),
          c\<lparr>roundRobinIndex := roundRobinIndex c + of_nat (length (endPoints c))\<rparr>)
     | Some a \<Rightarrow>
         sendTo ((nat (sint (roundRobinIndex c)) + a) mod length (endPoints c)) data
           (c\<lparr>roundRobinIndex := roundRobinIndex c + of_nat (Suc a)\<rparr>))"
    using roundRobinFrom_select [of "roundRobinIndex c" c 0 clock data] assms
    by (simp add: roundRobin_def)
  have none: "(find ?P [0..<length (endPoints c)] = None) = (\<forall>a<length (endPoints c). \<not> ?P a)"
    by (auto simp: find_None_iff)
  show ?thesis
  proof (cases "find ?P [0..<length (endPoints c)]")
    case None
    with none show ?thesis by (simp add: sel)
  next
    case (Some a)
    with none have "\<not> (\<forall>a<length (endPoints c). \<not> ?P a)" by simp
    with Some show ?thesis by (simp add: sel sendTo_not_error)
  qed
qed

lemma turn_covers:
  assumes "i < n"
  shows "\<exists>a<n. (s + a) mod n = (i::nat)"
proof -
  let ?a = "(i + (n - s mod n)) mod n"
  have "0 < n" using assms by simp
  then have sm: "s mod n < n" by (rule mod_less_divisor)
  have "(s + (i + (n - s mod n))) mod n = (s mod n + (i + (n - s mod n))) mod n"
    by (simp add: mod_add_left_eq)
  also have "s mod n + (i + (n - s mod n)) = i + n" using sm by simp
  also have "(i + n) mod n = i" using assms by simp
  finally have "(s + ?a) mod n = i" by (simp add: mod_add_right_eq)
  moreover have "?a < n" using \<open>0 < n\<close> by (rule mod_less_divisor)
  ultimately show ?thesis by blast
qed

lemma roundRobin_error_steady_clock:
  assumes "0 \<le> sint (roundRobinIndex c)"
    and "sint (roundRobinIndex c) + int (length (endPoints c)) \<le> 2 ^ 31"
  shows "(fst (roundRobin (\<lambda>a. now) c data) = Returns (Some errAllBlocked)) =
    (\<forall>w\<in>set (endPoints c). now \<le> blockedUntil w)"
proof -
  let ?n = "length (endPoints c)" and ?s = "nat (sint (roundRobinIndex c))"
  have "(\<forall>a<?n. \<not> available now (endPoints c ! ((?s + a) mod ?n))) =
      (\<forall>w\<in>set (endPoints c). \<not> available now w)"
  proof
    assume all: "\<forall>a<?n. \<not> available now (endPoints c ! ((?s + a) mod ?n))"
    show "\<forall>w\<in>set (endPoints c). \<not> available now w"
    proof
      fix w assume "w \<in> set (endPoints c)"
      then obtain i where i: "i < ?n" "endPoints c ! i = w"
        by (auto simp: in_set_conv_nth)
      from turn_covers [OF i(1), of ?s] obtain a where "a < ?n" "(?s + a) mod ?n = i"
        by blast
      with all i(2) show "\<not> available now w" by auto
    qed
  next
    assume all: "\<forall>w\<in>set (endPoints c). \<not> available now w"
    show "\<forall>a<?n. \<not> available now (endPoints c ! ((?s + a) mod ?n))"
    proof (intro allI impI)
      fix a assume "a < ?n"
      then have "0 < ?n" by linarith
      then have "(?s + a) mod ?n < ?n" by (rule mod_less_divisor)
      then have "endPoints c ! ((?s + a) mod ?n) \<in> set (endPoints c)" by (rule nth_mem)
      with all show "\<not> available now (endPoints c ! ((?s + a) mod ?n))" by blast
    qed
  qed
  then show ?thesis
    using roundRobin_error_iff [OF assms, of "\<lambda>a. now" data]
    by (simp add: available_def not_less)
qed


text \<open>
  Claim C1.  The claim: \<^verbatim>\<open>Emit\<close> returns the error "all endpoints unavailable" exactly
  when there is no endpoint or every worker is blocked.  On the code: \<^verbatim>\<open>roundRobin\<close>
  returns that error with no endpoint (any clock, any payload) and with both workers
  blocked until 70 at the time 50, and \<^verbatim>\<open>Emit\<close> returns nil on the same inputs.
  (\<^verbatim>\<open>roundRobin\<close> does what the claim says of \<^verbatim>\<open>Emit\<close>, a worker counting as blocked up
  to and at \<open>blockedUntil\<close>: \<open>roundRobin_error_steady_clock\<close>.)
\<close>

theorem Emit_drops_error:
  "roundRobin clock (demoPair\<lparr>endPoints := []\<rparr>) data =
     (Returns (Some errAllBlocked), demoPair\<lparr>endPoints := []\<rparr>) \<and>
   Emit clock (demoPair\<lparr>endPoints := []\<rparr>) data =
     (Returns None, demoPair\<lparr>endPoints := []\<rparr>) \<and>
   roundRobin (\<lambda>i. 50) demoBlocked data =
     (Returns (Some errAllBlocked), demoBlocked\<lparr>roundRobinIndex := 2\<rparr>) \<and>
   Emit (\<lambda>i. 50) demoBlocked data = (Returns None, demoBlocked\<lparr>roundRobinIndex := 2\<rparr>)"
  by (simp add: Emit_def roundRobin_def roundRobinFrom.simps demoPair_def demoBlocked_def
      RoundRobin_def available_def zeroTime_def Let_def smod_int_alt_def)

section \<open>Membership of the endpoint list\<close>

lemma findFrom_none: "0 \<le> i \<Longrightarrow> (findFrom i ws p = - 1) = (p \<notin> point ` set ws)"
proof (induction ws arbitrary: i)
  case Nil
  then show ?case by simp
next
  case (Cons w ws)
  then show ?case by (auto simp: Cons.IH [of "i + 1"])
qed

lemma findFrom_first:
  "0 \<le> i \<Longrightarrow> p \<in> point ` set ws \<Longrightarrow>
   findFrom i ws p = i + int (length (takeWhile (\<lambda>w. point w \<noteq> p) ws))"
proof (induction ws arbitrary: i)
  case Nil
  then show ?case by simp
next
  case (Cons w ws)
  then show ?case by (auto simp: Cons.IH [of "i + 1"])
qed


lemma findWorkerIndex_none:
  "(findWorkerIndex c host = - 1) = (host \<notin> point ` set (endPoints c))"
  by (simp add: findWorkerIndex_def findFrom_none)

lemma findWorkerIndex_first:
  "host \<in> point ` set (endPoints c) \<Longrightarrow>
   findWorkerIndex c host = int (length (takeWhile (\<lambda>w. point w \<noteq> host) (endPoints c)))"
  by (simp add: findWorkerIndex_def findFrom_first)

lemma first_index_less:
  "host \<in> point ` set ws \<Longrightarrow> length (takeWhile (\<lambda>w. point w \<noteq> host) ws) < length ws"
  by (induction ws) auto

lemma DeleteEndpoint_absent:
  "host \<notin> point ` set (endPoints c) \<Longrightarrow> DeleteEndpoint c host = (Returns (), c)"
  by (simp add: DeleteEndpoint_def findWorkerIndex_none)

lemma DeleteEndpoint_nil_stop:
  assumes "host \<in> point ` set (endPoints c)" "\<forall>w\<in>set (endPoints c). stop w = NilChan"
  shows "DeleteEndpoint c host = (Panics ''close of nil channel'', c)"
proof -
  let ?i = "length (takeWhile (\<lambda>w. point w \<noteq> host) (endPoints c))"
  have "?i < length (endPoints c)" using assms(1) by (rule first_index_less)
  then have "stop (endPoints c ! ?i) = NilChan" using assms(2) by simp
  moreover have "findWorkerIndex c host \<noteq> - 1"
    using assms(1) by (simp add: findWorkerIndex_none)
  ultimately show ?thesis
    by (simp add: DeleteEndpoint_def Let_def findWorkerIndex_first [OF assms(1)] Close_def)
qed

lemma DeleteEndpoint_open_stop:
  assumes "host \<in> point ` set (endPoints c)" "\<forall>w\<in>set (endPoints c). stop w = OpenChan"
  shows "DeleteEndpoint c host =
    (Returns (), c\<lparr>endPoints := takeWhile (\<lambda>w. point w \<noteq> host) (endPoints c) @
                    tl (dropWhile (\<lambda>w. point w \<noteq> host) (endPoints c))\<rparr>)"
proof -
  let ?P = "\<lambda>w. point w \<noteq> host"
  let ?i = "length (takeWhile ?P (endPoints c))"
  have lt: "?i < length (endPoints c)" using assms(1) by (rule first_index_less)
  then have "stop (endPoints c ! ?i) = OpenChan" using assms(2) by simp
  moreover have "findWorkerIndex c host \<noteq> - 1"
    using assms(1) by (simp add: findWorkerIndex_none)
  moreover have "take ?i (endPoints c) = takeWhile ?P (endPoints c)"
    by (rule takeWhile_eq_take [symmetric])
  moreover have "drop (Suc ?i) (endPoints c) = tl (dropWhile ?P (endPoints c))"
  proof -
    have "drop (Suc ?i) (endPoints c) = tl (drop ?i (endPoints c))"
      by (simp add: drop_Suc tl_drop)
    also have "drop ?i (endPoints c) = dropWhile ?P (endPoints c)"
      by (rule dropWhile_eq_drop [symmetric])
    finally show ?thesis .
  qed
  ultimately show ?thesis
    by (simp add: DeleteEndpoint_def Let_def findWorkerIndex_first [OF assms(1)] Close_def
        removeAt_def)
qed

lemma removeOutdated_nothing:
  "k \<le> length (endPoints c) \<Longrightarrow> point ` set (take k (endPoints c)) \<subseteq> set hosts \<Longrightarrow>
   removeOutdated hosts k c = (Returns (), c)"
proof (induction k)
  case 0
  then show ?case by simp
next
  case (Suc k)
  then have "point (endPoints c ! k) \<in> set hosts"
    by (simp add: take_Suc_conv_app_nth)
  moreover have "removeOutdated hosts k c = (Returns (), c)"
    using Suc by (simp add: take_Suc_conv_app_nth)
  ultimately show ?case by simp
qed

lemma removeOutdated_nil_stop:
  "k \<le> length (endPoints c) \<Longrightarrow> \<forall>w\<in>set (endPoints c). stop w = NilChan \<Longrightarrow>
   \<not> point ` set (take k (endPoints c)) \<subseteq> set hosts \<Longrightarrow>
   removeOutdated hosts k c = (Panics ''close of nil channel'', c)"
proof (induction k)
  case 0
  then show ?case by simp
next
  case (Suc k)
  show ?case
  proof (cases "point (endPoints c ! k) \<in> set hosts")
    case True
    with Suc.prems have "\<not> point ` set (take k (endPoints c)) \<subseteq> set hosts"
      by (simp add: take_Suc_conv_app_nth)
    with Suc have "removeOutdated hosts k c = (Panics ''close of nil channel'', c)"
      by simp
    with True show ?thesis by simp
  next
    case False
    have "stop (endPoints c ! k) = NilChan" using Suc.prems by simp
    with False show ?thesis by (simp add: Close_def)
  qed
qed

lemma addMissing_nothing:
  "set hosts \<subseteq> point ` set (endPoints c) \<Longrightarrow> addMissing hosts c = (Returns (), c)"
  by (induction hosts) (simp_all add: findWorkerIndex_none)

lemma SyncEndPoint_same_set:
  "point ` set (endPoints c) = set hosts \<Longrightarrow> SyncEndPoint c hosts = (Returns (), c)"
  by (simp add: SyncEndPoint_def removeOutdated_nothing addMissing_nothing)

lemma SyncEndPoint_nil_stop:
  "\<forall>w\<in>set (endPoints c). stop w = NilChan \<Longrightarrow> \<not> point ` set (endPoints c) \<subseteq> set hosts \<Longrightarrow>
   SyncEndPoint c hosts = (Panics ''close of nil channel'', c)"
  by (simp add: SyncEndPoint_def removeOutdated_nil_stop)


lemma NewWorker_stop: "NewWorker c p = Inr w \<Longrightarrow> stop w = NilChan \<and> point w = p"
  by (auto simp: NewWorker_def split: if_splits)

lemma addMissing_nil_stop:
  "\<forall>w\<in>set (endPoints c). stop w = NilChan \<Longrightarrow>
   \<forall>w\<in>set (endPoints (snd (addMissing hosts c))). stop w = NilChan"
proof (induction hosts arbitrary: c)
  case Nil
  then show ?case by simp
next
  case (Cons host hosts)
  show ?case
  proof (cases "findWorkerIndex c host = - 1")
    case False
    with Cons show ?thesis by simp
  next
    case True
    show ?thesis
    proof (cases "NewWorker c host")
      case (Inl msg)
      with True Cons.prems show ?thesis by simp
    next
      case (Inr worker)
      then have "stop worker = NilChan" by (simp add: NewWorker_stop)
      with Cons.prems
      have "\<forall>w\<in>set (endPoints (c\<lparr>endPoints := endPoints c @ [worker]\<rparr>)). stop w = NilChan"
        by simp
      from Cons.IH [OF this] True Inr show ?thesis by simp
    qed
  qed
qed

lemma addMissing_covers:
  "addMissing hosts c = (Returns (), c') \<Longrightarrow>
   point ` set (endPoints c) \<subseteq> point ` set (endPoints c') \<and>
   set hosts \<subseteq> point ` set (endPoints c')"
proof (induction hosts arbitrary: c)
  case Nil
  then show ?case by simp
next
  case (Cons host hosts)
  show ?case
  proof (cases "findWorkerIndex c host = - 1")
    case False
    with Cons.prems have "addMissing hosts c = (Returns (), c')" by simp
    from Cons.IH [OF this] False show ?thesis
      by (auto simp: findWorkerIndex_none)
  next
    case True
    show ?thesis
    proof (cases "NewWorker c host")
      case (Inl msg)
      with True Cons.prems show ?thesis by simp
    next
      case (Inr worker)
      then have p: "point worker = host" by (simp add: NewWorker_stop)
      from True Inr Cons.prems
      have "addMissing hosts (c\<lparr>endPoints := endPoints c @ [worker]\<rparr>) = (Returns (), c')"
        by simp
      from Cons.IH [OF this] p show ?thesis by auto
    qed
  qed
qed

lemma defaultOptions_EndPoints: "EndPoints (defaultOptions opt) = EndPoints opt"
  by (simp add: defaultOptions_def Let_def if_distrib [of EndPoints])

lemma New_nil_stop: "\<forall>w\<in>set (endPoints (snd (New opt))). stop w = NilChan"
proof -
  let ?c = "\<lparr>transport = Transport (defaultOptions opt),
             deliveryMode = DeliveryMode (defaultOptions opt), endPoints = [],
             retryLimit = RetryLimit (defaultOptions opt),
             retryTimeout = RetryTimeout (defaultOptions opt),
             retryWindow = RetryWindow (defaultOptions opt), roundRobinIndex = 0\<rparr>"
  have "\<forall>w\<in>set (endPoints ?c). stop w = NilChan" by simp
  then have "\<forall>w\<in>set (endPoints (snd (addMissing (EndPoints (defaultOptions opt)) ?c))).
      stop w = NilChan"
    by (rule addMissing_nil_stop)
  then show ?thesis
    by (simp add: New_def SyncEndPoint_def Let_def)
qed

lemma New_covers:
  assumes "New opt = (Returns (), c)"
  shows "set (EndPoints opt) \<subseteq> point ` set (endPoints c)"
proof -
  let ?c = "\<lparr>transport = Transport (defaultOptions opt),
             deliveryMode = DeliveryMode (defaultOptions opt), endPoints = [],
             retryLimit = RetryLimit (defaultOptions opt),
             retryTimeout = RetryTimeout (defaultOptions opt),
             retryWindow = RetryWindow (defaultOptions opt), roundRobinIndex = 0\<rparr>"
  from assms have "addMissing (EndPoints (defaultOptions opt)) ?c = (Returns (), c)"
    by (simp add: New_def SyncEndPoint_def Let_def)
  then have "set (EndPoints (defaultOptions opt)) \<subseteq> point ` set (endPoints c)"
    by (simp add: addMissing_covers)
  then show ?thesis by (simp add: defaultOptions_EndPoints)
qed

lemma DeleteEndpoint_after_New:
  assumes "New opt = (Returns (), c)" "host \<in> set (EndPoints opt)"
  shows "DeleteEndpoint c host = (Panics ''close of nil channel'', c)"
proof (rule DeleteEndpoint_nil_stop)
  show "host \<in> point ` set (endPoints c)"
    using New_covers [OF assms(1)] assms(2) by blast
  show "\<forall>w\<in>set (endPoints c). stop w = NilChan"
    using New_nil_stop [of opt] assms(1) by simp
qed


text \<open>
  Claim C7.  The claim: \<^verbatim>\<open>DeleteEndpoint\<close> closes the worker of the endpoint and takes it
  out of the list, and does nothing for an endpoint with no worker.  On the code: the
  dispatcher \<^verbatim>\<open>New\<close> makes for the endpoints \<^verbatim>\<open>a\<close> and \<^verbatim>\<open>b\<close> holds workers whose \<^verbatim>\<open>stop\<close>
  is the nil channel; \<^verbatim>\<open>DeleteEndpoint\<close> of \<^verbatim>\<open>a\<close> panics in \<^verbatim>\<open>Close\<close> and the list is as
  before; \<^verbatim>\<open>DeleteEndpoint\<close> of the unknown \<^verbatim>\<open>z\<close> returns and changes nothing.
\<close>

theorem DeleteEndpoint_closes_nil_channel:
  "New demoOptions = (Returns (), demoPair) \<and>
   DeleteEndpoint demoPair ''a'' = (Panics ''close of nil channel'', demoPair) \<and>
   DeleteEndpoint demoPair ''z'' = (Returns (), demoPair)"
  by code_simp

lemma SyncEndPoint_after_New:
  assumes "New opt = (Returns (), c)" "\<not> set (EndPoints opt) \<subseteq> set hosts"
  shows "SyncEndPoint c hosts = (Panics ''close of nil channel'', c)"
proof (rule SyncEndPoint_nil_stop)
  show "\<forall>w\<in>set (endPoints c). stop w = NilChan"
    using New_nil_stop [of opt] assms(1) by simp
  show "\<not> point ` set (endPoints c) \<subseteq> set hosts"
    using New_covers [OF assms(1)] assms(2) by blast
qed


lemma removeOutdated_open_stop:
  "k \<le> length (endPoints c) \<Longrightarrow> \<forall>w\<in>set (endPoints c). stop w = OpenChan \<Longrightarrow>
   removeOutdated hosts k c =
     (Returns (),
      c\<lparr>endPoints := filter (\<lambda>w. point w \<in> set hosts) (take k (endPoints c)) @
                      drop k (endPoints c)\<rparr>)"
proof (induction k arbitrary: c)
  case 0
  then show ?case by simp
next
  case (Suc k)
  let ?ws = "endPoints c"
  from Suc.prems(1) have k: "k < length ?ws" by simp
  have take: "take (Suc k) ?ws = take k ?ws @ [?ws ! k]"
    using k by (rule take_Suc_conv_app_nth)
  have drop: "drop k ?ws = ?ws ! k # drop (Suc k) ?ws"
    using k by (rule Cons_nth_drop_Suc [symmetric])
  show ?case
  proof (cases "point (?ws ! k) \<in> set hosts")
    case True
    have "removeOutdated hosts k c =
      (Returns (), c\<lparr>endPoints := filter (\<lambda>w. point w \<in> set hosts) (take k ?ws) @ drop k ?ws\<rparr>)"
      using Suc.prems k by (intro Suc.IH) simp_all
    with True show ?thesis by (simp add: take drop)
  next
    case False
    let ?c1 = "c\<lparr>endPoints := removeAt k ?ws\<rparr>"
    have open_k: "stop (?ws ! k) = OpenChan" using Suc.prems(2) k by simp
    have sub: "set (removeAt k ?ws) \<subseteq> set ?ws"
      by (auto simp: removeAt_def dest: in_set_takeD in_set_dropD)
    have "removeOutdated hosts k ?c1 =
      (Returns (), ?c1\<lparr>endPoints := filter (\<lambda>w. point w \<in> set hosts) (take k (endPoints ?c1)) @
                      drop k (endPoints ?c1)\<rparr>)"
    proof (rule Suc.IH)
      show "k \<le> length (endPoints ?c1)" using k by (simp add: removeAt_def)
      show "\<forall>w\<in>set (endPoints ?c1). stop w = OpenChan" using Suc.prems(2) sub by auto
    qed
    moreover have "take k (removeAt k ?ws) = take k ?ws"
      using k by (simp add: removeAt_def)
    moreover have "drop k (removeAt k ?ws) = drop (Suc k) ?ws"
      using k by (simp add: removeAt_def)
    ultimately show ?thesis
      using False open_k by (simp add: Close_def take)
  qed
qed

lemma addMissing_appends:
  "addMissing hosts c = (Returns (), c') \<Longrightarrow>
   take (length (endPoints c)) (endPoints c') = endPoints c \<and>
   point ` set (endPoints c') = point ` set (endPoints c) \<union> set hosts"
proof (induction hosts arbitrary: c)
  case Nil
  then show ?case by simp
next
  case (Cons host hosts)
  show ?case
  proof (cases "findWorkerIndex c host = - 1")
    case False
    with Cons.prems have "addMissing hosts c = (Returns (), c')" by simp
    from Cons.IH [OF this] False show ?thesis
      by (auto simp: findWorkerIndex_none)
  next
    case True
    show ?thesis
    proof (cases "NewWorker c host")
      case (Inl msg)
      with True Cons.prems show ?thesis by simp
    next
      case (Inr worker)
      then have p: "point worker = host" by (simp add: NewWorker_stop)
      let ?c1 = "c\<lparr>endPoints := endPoints c @ [worker]\<rparr>"
      from True Inr Cons.prems have "addMissing hosts ?c1 = (Returns (), c')"
        by simp
      from Cons.IH [OF this]
      have pre: "take (Suc (length (endPoints c))) (endPoints c') = endPoints c @ [worker]"
        and pts: "point ` set (endPoints c') = point ` set (endPoints ?c1) \<union> set hosts"
        by simp_all
      have "take (length (endPoints c)) (take (Suc (length (endPoints c))) (endPoints c'))
          = endPoints c"
        by (simp only: pre) simp
      then have "take (length (endPoints c)) (endPoints c') = endPoints c"
        by (simp add: min_def)
      with pts p show ?thesis by auto
    qed
  qed
qed

lemma SyncEndPoint_open_stop:
  assumes "\<forall>w\<in>set (endPoints c). stop w = OpenChan"
  shows "SyncEndPoint c hosts =
    addMissing hosts (c\<lparr>endPoints := filter (\<lambda>w. point w \<in> set hosts) (endPoints c)\<rparr>)"
  using removeOutdated_open_stop [OF le_refl assms, of hosts]
  by (simp add: SyncEndPoint_def)


text \<open>
  Claim C6.  The claim: \<^verbatim>\<open>SyncEndPoint\<close> closes and removes the workers whose endpoint
  is not in the new list, appends a worker for each new endpoint, keeps the order of
  the others, and changes nothing when called again with the same list.  On the code:
  on the dispatcher \<^verbatim>\<open>New\<close> makes for \<^verbatim>\<open>a\<close> and \<^verbatim>\<open>b\<close>, \<^verbatim>\<open>SyncEndPoint\<close> with \<^verbatim>\<open>b\<close> and \<^verbatim>\<open>c\<close>
  panics in \<^verbatim>\<open>Close\<close> on the worker of \<^verbatim>\<open>a\<close>: nothing is removed and nothing is added;
  with \<^verbatim>\<open>a\<close>, \<^verbatim>\<open>b\<close> and \<^verbatim>\<open>c\<close> it appends one worker, and the same call again changes
  nothing.
\<close>

theorem SyncEndPoint_closes_nil_channel:
  "New demoOptions = (Returns (), demoPair) \<and>
   SyncEndPoint demoPair [''b'', ''c''] = (Panics ''close of nil channel'', demoPair) \<and>
   SyncEndPoint demoPair [''a'', ''b'', ''c''] =
     (Returns (),
      demoPair\<lparr>endPoints := endPoints demoPair @
        [\<lparr>point = ''c'', messageQueue = [], errorTimestamps = [], blockedUntil = zeroTime,
          stop = NilChan\<rparr>]\<rparr>) \<and>
   SyncEndPoint (snd (SyncEndPoint demoPair [''a'', ''b'', ''c''])) [''a'', ''b'', ''c''] =
     (Returns (), snd (SyncEndPoint demoPair [''a'', ''b'', ''c'']))"
  by code_simp

end
